theory Spec2Isabelle
  imports Complex_Main "HOL-Library.Char_ord" "HOL-Library.List_Lexorder" "HOL-Library.AList"
begin

section \<open>Host string primitives used by the key codec\<close>

text \<open>
  \<^verbatim>\<open>String(n)\<close> of an integral JavaScript number: decimal digits, most significant first,
  with a leading minus sign for a negative number. The fields of a \<^verbatim>\<open>DateKey\<close> are JavaScript
  numbers; they are modelled as unbounded integers.
\<close>

definition digitChar :: "nat \<Rightarrow> char" where
  "digitChar n = ''0123456789'' ! n"

fun natToString :: "nat \<Rightarrow> string" where
  "natToString n =
     (if n < 10 then [digitChar n] else natToString (n div 10) @ [digitChar (n mod 10)])"

declare natToString.simps [simp del]

definition String_number :: "int \<Rightarrow> string" where
  "String_number i =
     (if i < 0 then CHR ''-'' # natToString (nat (- i)) else natToString (nat i))"

text \<open>\<^verbatim>\<open>s.padStart(n, c)\<close> with a one-character pad string.\<close>

definition padStart :: "nat \<Rightarrow> char \<Rightarrow> string \<Rightarrow> string" where
  "padStart n c s = replicate (n - length s) c @ s"

section \<open>Date keys\<close>

record DateKey =
  year :: int
  month :: int
  day :: int

text \<open>The private method \<^verbatim>\<open>StorageService.dateToKey\<close>: the string key of a date.\<close>

definition dateToKey :: "DateKey \<Rightarrow> string" where
  "dateToKey d =
     String_number (year d) @ ''-'' @ padStart 2 (CHR ''0'') (String_number (month d))
       @ ''-'' @ padStart 2 (CHR ''0'') (String_number (day d))"

definition validDateKey :: "DateKey \<Rightarrow> bool" where
  "validDateKey d \<longleftrightarrow> 1 \<le> month d \<and> month d \<le> 12 \<and> 1 \<le> day d \<and> day d \<le> 31"

definition isDigit :: "char \<Rightarrow> bool" where
  "isDigit c \<longleftrightarrow> c \<in> set ''0123456789''"

text \<open>The shape \<^verbatim>\<open>YYYY-MM-DD\<close> in the words of the specification.\<close>

definition isCanonicalForm :: "string \<Rightarrow> bool" where
  "isCanonicalForm s \<longleftrightarrow>
     length s = 10 \<and> list_all isDigit (take 4 s) \<and> s ! 4 = CHR ''-'' \<and>
     list_all isDigit (take 2 (drop 5 s)) \<and> s ! 7 = CHR ''-'' \<and> list_all isDigit (drop 8 s)"


section \<open>Dates of the host (types.ts)\<close>






section \<open>Meal data (types.ts)\<close>

text \<open>
  The string enum \<^verbatim>\<open>MealType\<close>; \<^verbatim>\<open>Object.values(MealType)\<close> lists its seven members in
  declaration order.
\<close>

datatype MealType =
  MORNING_SNACK | BREAKFAST | LATE_MORNING_SNACK | LUNCH | AFTERNOON_SNACK | DINNER
  | EVENING_SNACK

definition MealType_values :: "MealType list" where
  "MealType_values =
     [MORNING_SNACK, BREAKFAST, LATE_MORNING_SNACK, LUNCH, AFTERNOON_SNACK, DINNER,
      EVENING_SNACK]"

text \<open>
  \<^verbatim>\<open>FoodItem\<close> and \<^verbatim>\<open>MealRecord\<close>. The properties \<^verbatim>\<open>id\<close> and \<^verbatim>\<open>image\<close> carry a suffix
  here, their names being taken by constants of the logic. \<^verbatim>\<open>image?: string\<close> is an
  optional property: \<open>None\<close> when it is absent.
\<close>

record FoodItem =
  id_str :: string
  name :: string
  calories :: real
  carbs :: real
  protein :: real
  fat :: real
  sugar :: real
  sodium :: real
  cholesterol :: real

record MealRecord =
  type :: MealType
  items :: "FoodItem list"
  image_str :: "string option"

text \<open>
  \<^verbatim>\<open>Record<string, MealRecord>\<close>: an object whose own properties are listed in insertion
  order. The keys the application uses are the values of \<^verbatim>\<open>MealType\<close> (the service casts
  the argument to \<^verbatim>\<open>Record<MealType, MealRecord>\<close>).
\<close>

type_synonym Meals = "(MealType \<times> MealRecord) list"

text \<open>
  \<^verbatim>\<open>DailyMealData\<close>. The field \<open>dateKey\<close> is the extra own property that
  \<^verbatim>\<open>saveMealRecords\<close> adds to the object it hands to the object store
  (\<^verbatim>\<open>{ ...data, dateKey }\<close>); it is \<open>None\<close> on an object without that property.
\<close>

record DailyMealData =
  date :: DateKey
  meals :: Meals
  lastModified :: int
  dateKey :: "string option"


section \<open>The storage service and its host\<close>

datatype StorageErrorType =
  DB_OPEN_FAILED | SAVE_FAILED | LOAD_FAILED | DELETE_FAILED | QUOTA_EXCEEDED | NOT_SUPPORTED
  | UNKNOWN

text \<open>
  A \<^verbatim>\<open>StorageError\<close> carries its \<^verbatim>\<open>type\<close> and its \<^verbatim>\<open>originalError\<close>, of which only the
  \<^verbatim>\<open>name\<close> is ever read (\<open>None\<close>: no underlying error object). The display text
  \<^verbatim>\<open>userMessage\<close> is a literal fixed at each construction site and is left out.
\<close>

type_synonym ErrorName = "string option"

datatype StorageError = StorageError StorageErrorType ErrorName

text \<open>The settled state of a promise returned by the service.\<close>

datatype 'a Promise = Resolved 'a | Rejected StorageError

text \<open>
  What the host does with one IndexedDB request: it fires the success (or completion)
  handler, fires the error handler with \<^verbatim>\<open>error.name\<close>, or throws synchronously inside
  the \<^verbatim>\<open>try\<close> block.
\<close>

datatype Outcome = Succeeds | Fails ErrorName | Throws ErrorName

text \<open>
  The behaviour of the host during one call of the service: whether the global
  \<^verbatim>\<open>indexedDB\<close> is defined, how an open request, a write transaction and a read or delete
  request end, and the value of \<^verbatim>\<open>Date.now()\<close>.
\<close>

record Env =
  indexedDBDefined :: bool
  openOutcome :: Outcome
  writeOutcome :: Outcome
  requestOutcome :: Outcome
  now :: int

text \<open>
  The object store \<^verbatim>\<open>mealRecords\<close> of the database \<^verbatim>\<open>MealTrackerDB\<close>: its key path and its
  entries, one value per key.
\<close>

record IDBObjectStore =
  keyPath :: string
  entries :: "(string \<times> DailyMealData) list"

datatype IDBCall = Open | Transaction

text \<open>
  The fields of \<^verbatim>\<open>StorageService\<close> (\<open>db\<close>, \<open>useFallback\<close>, \<open>fallbackStorage\<close>,
  \<open>errorCallback\<close>) together with the host state the service acts on: the object store
  (\<open>None\<close> until the database has been created), the list of calls made to the IndexedDB
  API, and the errors handed to the registered callback. A connection is identified by a
  number. \<open>fallbackStorage\<close> is a \<^verbatim>\<open>Map\<close>: \<^verbatim>\<open>set\<close> is \<^const>\<open>AList.update\<close> (an existing key
  keeps its position, a new one goes last), \<^verbatim>\<open>get\<close> is \<^const>\<open>map_of\<close>, \<^verbatim>\<open>delete\<close> is
  \<^const>\<open>AList.delete\<close>, \<^verbatim>\<open>forEach\<close> visits the values in list order.
\<close>

record World =
  db :: "nat option"
  useFallback :: bool
  fallbackStorage :: "(string \<times> DailyMealData) list"
  errorCallback :: bool
  objectStore :: "IDBObjectStore option"
  idbCalls :: "IDBCall list"
  callbackLog :: "StorageError list"

definition initialWorld :: World where
  "initialWorld =
     \<lparr>db = None, useFallback = False, fallbackStorage = [], errorCallback = False,
      objectStore = None, idbCalls = [], callbackLog = []\<rparr>"

definition setErrorCallback :: "World \<Rightarrow> World" where
  "setErrorCallback w = w\<lparr>errorCallback := True\<rparr>"

text \<open>
  \<^verbatim>\<open>notifyError\<close> hands the error to the callback when one is registered. The callback is a
  sink that records what it receives; the line written to the console is left out.
\<close>

definition notifyError :: "StorageError \<Rightarrow> World \<Rightarrow> World" where
  "notifyError e w = (if errorCallback w then w\<lparr>callbackLog := callbackLog w @ [e]\<rparr> else w)"

definition isIndexedDBSupported :: "Env \<Rightarrow> bool" where
  "isIndexedDBSupported env = indexedDBDefined env"

text \<open>
  The \<^verbatim>\<open>onupgradeneeded\<close> handler of \<^verbatim>\<open>init\<close>. The host fires it before \<^verbatim>\<open>onsuccess\<close> when
  the database is created; the handler itself is guarded by
  \<^verbatim>\<open>objectStoreNames.contains\<close>, so it changes nothing once the store exists.
\<close>

definition onupgradeneeded :: "World \<Rightarrow> World" where
  "onupgradeneeded w =
     (case objectStore w of
        None \<Rightarrow> w\<lparr>objectStore := Some \<lparr>keyPath = ''dateKey'', entries = []\<rparr>\<rparr>
      | Some st \<Rightarrow> w)"

definition init :: "Env \<Rightarrow> World \<Rightarrow> unit Promise \<times> World" where
  "init env w =
     (if \<not> isIndexedDBSupported env then
        (Resolved (), notifyError (StorageError NOT_SUPPORTED None) (w\<lparr>useFallback := True\<rparr>))
      else
        (let w1 = w\<lparr>idbCalls := idbCalls w @ [Open]\<rparr> in
         case openOutcome env of
           Fails x \<Rightarrow>
             (Resolved (), notifyError (StorageError DB_OPEN_FAILED x) (w1\<lparr>useFallback := True\<rparr>))
         | Succeeds \<Rightarrow>
             (Resolved (),
              (onupgradeneeded w1)\<lparr>db := Some (length (idbCalls w1)), useFallback := False\<rparr>)
         | Throws x \<Rightarrow>
             (Resolved (), notifyError (StorageError DB_OPEN_FAILED x) (w1\<lparr>useFallback := True\<rparr>))))"

text \<open>\<^verbatim>\<open>Boolean(record.image)\<close>: an absent image and the empty string are both falsy.\<close>

definition Boolean_image :: "string option \<Rightarrow> bool" where
  "Boolean_image v = (case v of None \<Rightarrow> False | Some s \<Rightarrow> s \<noteq> [])"

fun hasMealData :: "MealRecord option \<Rightarrow> bool" where
  "hasMealData None = False"
| "hasMealData (Some record) = (length (items record) > 0 \<or> Boolean_image (image_str record))"

definition hasAnyMealData :: "Meals \<Rightarrow> bool" where
  "hasAnyMealData mls = list_ex (\<lambda>record. hasMealData (Some record)) (map snd mls)"

definition getEmptyMealRecords :: Meals where
  "getEmptyMealRecords =
     map (\<lambda>mealType. (mealType, \<lparr>type = mealType, items = [], image_str = None\<rparr>))
       MealType_values"

text \<open>
  The routing with which each of the five data operations starts: the fallback map when
  \<open>useFallback\<close> is set; otherwise a lazy \<^verbatim>\<open>await this.init()\<close> when no connection is held,
  and the fallback map again if there is still none; otherwise the database.
\<close>

definition route ::
  "Env \<Rightarrow> World \<Rightarrow> (World \<Rightarrow> 'a Promise \<times> World) \<Rightarrow> (World \<Rightarrow> 'a Promise \<times> World)
     \<Rightarrow> 'a Promise \<times> World" where
  "route env w viaFallback viaDatabase =
     (if useFallback w then viaFallback w
      else if db w = None then
        (case init env w of
           (Rejected e, w1) \<Rightarrow> (Rejected e, w1)
         | (Resolved u, w1) \<Rightarrow> if db w1 = None then viaFallback w1 else viaDatabase w1)
      else viaDatabase w)"

text \<open>
  \<^verbatim>\<open>this.db.transaction([storeName], mode)\<close> followed by one request on the store. The call
  throws when the store does not exist; \<^verbatim>\<open>put\<close> reads the key at the store's key path and
  throws when the value has none, and replaces the value filed under that key when the
  transaction completes; \<^verbatim>\<open>getAll\<close> returns the values in ascending key order.
\<close>

definition transaction :: "World \<Rightarrow> World" where
  "transaction w = w\<lparr>idbCalls := idbCalls w @ [Transaction]\<rparr>"

definition extractKey :: "string \<Rightarrow> DailyMealData \<Rightarrow> string option" where
  "extractKey path v = (if path = ''dateKey'' then dateKey v else None)"

text \<open>
  The handler that runs for a request: the success (or completion) handler with the
  result, the error handler with the name of the error, or the \<^verbatim>\<open>catch\<close> block.
\<close>

datatype 'a Event = OnSuccess 'a | OnError ErrorName | Caught ErrorName

definition store_put :: "Env \<Rightarrow> DailyMealData \<Rightarrow> World \<Rightarrow> unit Event \<times> World" where
  "store_put env v w =
     (case objectStore w of
        None \<Rightarrow> (Caught (Some ''NotFoundError''), w)
      | Some st \<Rightarrow>
          (case writeOutcome env of
             Throws x \<Rightarrow> (Caught x, w)
           | Fails x \<Rightarrow>
               (case extractKey (keyPath st) v of
                  None \<Rightarrow> (Caught (Some ''DataError''), w)
                | Some k \<Rightarrow> (OnError x, w))
           | Succeeds \<Rightarrow>
               (case extractKey (keyPath st) v of
                  None \<Rightarrow> (Caught (Some ''DataError''), w)
                | Some k \<Rightarrow>
                    (OnSuccess (),
                     w\<lparr>objectStore := Some (st\<lparr>entries := AList.update k v (entries st)\<rparr>)\<rparr>))))"

definition store_get :: "Env \<Rightarrow> string \<Rightarrow> World \<Rightarrow> DailyMealData option Event" where
  "store_get env k w =
     (case objectStore w of
        None \<Rightarrow> Caught (Some ''NotFoundError'')
      | Some st \<Rightarrow>
          (case requestOutcome env of
             Throws x \<Rightarrow> Caught x
           | Fails x \<Rightarrow> OnError x
           | Succeeds \<Rightarrow> OnSuccess (map_of (entries st) k)))"

definition store_delete :: "Env \<Rightarrow> string \<Rightarrow> World \<Rightarrow> unit Event \<times> World" where
  "store_delete env k w =
     (case objectStore w of
        None \<Rightarrow> (Caught (Some ''NotFoundError''), w)
      | Some st \<Rightarrow>
          (case requestOutcome env of
             Throws x \<Rightarrow> (Caught x, w)
           | Fails x \<Rightarrow> (OnError x, w)
           | Succeeds \<Rightarrow>
               (OnSuccess (),
                w\<lparr>objectStore := Some (st\<lparr>entries := AList.delete k (entries st)\<rparr>)\<rparr>)))"

definition store_getAll :: "Env \<Rightarrow> World \<Rightarrow> DailyMealData list Event" where
  "store_getAll env w =
     (case objectStore w of
        None \<Rightarrow> Caught (Some ''NotFoundError'')
      | Some st \<Rightarrow>
          (case requestOutcome env of
             Throws x \<Rightarrow> Caught x
           | Fails x \<Rightarrow> OnError x
           | Succeeds \<Rightarrow> OnSuccess (map snd (sort_key fst (entries st)))))"

subsection \<open>deleteMealRecords\<close>

definition delete_promise :: "Env \<Rightarrow> string \<Rightarrow> World \<Rightarrow> unit Promise \<times> World" where
  "delete_promise env k w =
     (case store_delete env k (transaction w) of
        (OnSuccess u, w1) \<Rightarrow> (Resolved (), w1)
      | (OnError x, w1) \<Rightarrow>
          (Rejected (StorageError DELETE_FAILED x),
           notifyError (StorageError DELETE_FAILED x) w1)
      | (Caught x, w1) \<Rightarrow>
          (Rejected (StorageError DELETE_FAILED x),
           notifyError (StorageError DELETE_FAILED x) w1))"

definition deleteMealRecords :: "Env \<Rightarrow> DateKey \<Rightarrow> World \<Rightarrow> unit Promise \<times> World" where
  "deleteMealRecords env d w =
     route env w
       (\<lambda>w1. (Resolved (), w1\<lparr>fallbackStorage := AList.delete (dateToKey d) (fallbackStorage w1)\<rparr>))
       (delete_promise env (dateToKey d))"

subsection \<open>saveMealRecords\<close>

definition save_promise :: "Env \<Rightarrow> string \<Rightarrow> DailyMealData \<Rightarrow> World \<Rightarrow> unit Promise \<times> World" where
  "save_promise env k data w =
     (case store_put env (data\<lparr>dateKey := Some k\<rparr>) (transaction w) of
        (OnSuccess u, w1) \<Rightarrow> (Resolved (), w1)
      | (OnError x, w1) \<Rightarrow>
          (if x = Some ''QuotaExceededError'' then
             (Rejected (StorageError QUOTA_EXCEEDED x),
              notifyError (StorageError QUOTA_EXCEEDED x) w1)
           else
             (Rejected (StorageError SAVE_FAILED x),
              notifyError (StorageError SAVE_FAILED x) w1))
      | (Caught x, w1) \<Rightarrow>
          (Rejected (StorageError SAVE_FAILED x), notifyError (StorageError SAVE_FAILED x) w1))"

definition saveMealRecords :: "Env \<Rightarrow> DateKey \<Rightarrow> Meals \<Rightarrow> World \<Rightarrow> unit Promise \<times> World" where
  "saveMealRecords env d mls w =
     (if \<not> hasAnyMealData mls then deleteMealRecords env d w
      else
        (let k = dateToKey d;
             data = \<lparr>date = d, meals = mls, lastModified = now env, dateKey = None\<rparr>
         in route env w
              (\<lambda>w1. (Resolved (), w1\<lparr>fallbackStorage := AList.update k data (fallbackStorage w1)\<rparr>))
              (save_promise env k data)))"

subsection \<open>loadMealRecords\<close>

definition load_fallback :: "string \<Rightarrow> World \<Rightarrow> Meals Promise \<times> World" where
  "load_fallback k w =
     (case map_of (fallbackStorage w) k of
        Some data \<Rightarrow> (Resolved (meals data), w)
      | None \<Rightarrow> (Resolved getEmptyMealRecords, w))"

definition load_promise :: "Env \<Rightarrow> string \<Rightarrow> World \<Rightarrow> Meals Promise \<times> World" where
  "load_promise env k w =
     (case store_get env k (transaction w) of
        OnSuccess result \<Rightarrow>
          (case result of
             None \<Rightarrow> (Resolved getEmptyMealRecords, transaction w)
           | Some r \<Rightarrow> (Resolved (meals r), transaction w))
      | OnError x \<Rightarrow>
          (Resolved getEmptyMealRecords, notifyError (StorageError LOAD_FAILED x) (transaction w))
      | Caught x \<Rightarrow>
          (Resolved getEmptyMealRecords, notifyError (StorageError LOAD_FAILED x) (transaction w)))"

definition loadMealRecords :: "Env \<Rightarrow> DateKey \<Rightarrow> World \<Rightarrow> Meals Promise \<times> World" where
  "loadMealRecords env d w =
     route env w (load_fallback (dateToKey d)) (load_promise env (dateToKey d))"

subsection \<open>getAllDatesWithData and getAllMealData\<close>

definition dates_fallback :: "World \<Rightarrow> DateKey list Promise \<times> World" where
  "dates_fallback w =
     (Resolved (map date (filter (\<lambda>v. hasAnyMealData (meals v)) (map snd (fallbackStorage w)))),
      w)"

definition dates_promise :: "Env \<Rightarrow> World \<Rightarrow> DateKey list Promise \<times> World" where
  "dates_promise env w =
     (case store_getAll env (transaction w) of
        OnSuccess rows \<Rightarrow>
          (Resolved (map date (filter (\<lambda>row. hasAnyMealData (meals row)) rows)), transaction w)
      | OnError x \<Rightarrow>
          (Resolved [], notifyError (StorageError LOAD_FAILED x) (transaction w))
      | Caught x \<Rightarrow>
          (Resolved [], notifyError (StorageError LOAD_FAILED x) (transaction w)))"

definition getAllDatesWithData :: "Env \<Rightarrow> World \<Rightarrow> DateKey list Promise \<times> World" where
  "getAllDatesWithData env w = route env w dates_fallback (dates_promise env)"

text \<open>
  \<^verbatim>\<open>rows.sort((a, b) => aKey.localeCompare(bKey))\<close>: a stable sort on the key strings.
  The keys consist of digits and hyphens, on which the comparison is the one of the
  character codes.
\<close>

definition sortByDateAsc :: "DailyMealData list \<Rightarrow> DailyMealData list" where
  "sortByDateAsc rows = sort_key (\<lambda>a. dateToKey (date a)) rows"

definition all_fallback :: "World \<Rightarrow> DailyMealData list Promise \<times> World" where
  "all_fallback w =
     (Resolved
        (sortByDateAsc (filter (\<lambda>v. hasAnyMealData (meals v)) (map snd (fallbackStorage w)))),
      w)"

definition all_promise :: "Env \<Rightarrow> World \<Rightarrow> DailyMealData list Promise \<times> World" where
  "all_promise env w =
     (case store_getAll env (transaction w) of
        OnSuccess rows \<Rightarrow>
          (Resolved (sortByDateAsc (filter (\<lambda>row. hasAnyMealData (meals row)) rows)),
           transaction w)
      | OnError x \<Rightarrow>
          (Resolved [], notifyError (StorageError LOAD_FAILED x) (transaction w))
      | Caught x \<Rightarrow>
          (Resolved [], notifyError (StorageError LOAD_FAILED x) (transaction w)))"

definition getAllMealData :: "Env \<Rightarrow> World \<Rightarrow> DailyMealData list Promise \<times> World" where
  "getAllMealData env w = route env w all_fallback (all_promise env)"


section \<open>Sessions\<close>

text \<open>One call of a public method, and the state it leaves behind.\<close>

datatype Call =
  Init | SetErrorCallback | Save DateKey Meals | Load DateKey | Delete DateKey
  | GetAllDatesWithData | GetAllMealData

fun step :: "Env \<Rightarrow> Call \<Rightarrow> World \<Rightarrow> World" where
  "step env Init w = snd (init env w)"
| "step env SetErrorCallback w = setErrorCallback w"
| "step env (Save d mls) w = snd (saveMealRecords env d mls w)"
| "step env (Load d) w = snd (loadMealRecords env d w)"
| "step env (Delete d) w = snd (deleteMealRecords env d w)"
| "step env GetAllDatesWithData w = snd (getAllDatesWithData env w)"
| "step env GetAllMealData w = snd (getAllMealData env w)"

fun run :: "(Env \<times> Call) list \<Rightarrow> World \<Rightarrow> World" where
  "run [] w = w"
| "run ((env, c) # cs) w = run cs (step env c w)"

text \<open>
  A page load evaluates \<^verbatim>\<open>new StorageService()\<close> again: the fields take their initial
  values, the database of the origin stays as it is.
\<close>

definition reload :: "World \<Rightarrow> World" where
  "reload w = w\<lparr>db := None, useFallback := False, fallbackStorage := [], errorCallback := False\<rparr>"

inductive reachable :: "World \<Rightarrow> bool" where
  reachable_initial: "reachable initialWorld"
| reachable_step: "reachable w \<Longrightarrow> reachable (step env c w)"
| reachable_reload: "reachable w \<Longrightarrow> reachable (reload w)"

text \<open>The entries of the store that the data operations currently read and write.\<close>

definition activeStore :: "World \<Rightarrow> (string \<times> DailyMealData) list" where
  "activeStore w =
     (if useFallback w then fallbackStorage w
      else case objectStore w of None \<Rightarrow> [] | Some st \<Rightarrow> entries st)"

definition storedRecords :: "World \<Rightarrow> DailyMealData set" where
  "storedRecords w =
     snd ` set (fallbackStorage w)
       \<union> (case objectStore w of None \<Rightarrow> {} | Some st \<Rightarrow> snd ` set (entries st))"

text \<open>
  ``Real content'' in the words of the specification: some slot has a non-empty item list
  or a non-null image.
\<close>

definition hasRealContent :: "Meals \<Rightarrow> bool" where
  "hasRealContent mls = list_ex (\<lambda>r. items r \<noteq> [] \<or> image_str r \<noteq> None) (map snd mls)"

text \<open>A mapping of exactly the seven fixed slots.\<close>

definition isSlotMapping :: "Meals \<Rightarrow> bool" where
  "isSlotMapping mls \<longleftrightarrow> map fst mls = MealType_values"

text \<open>
  The state invariant of a session: every entry of either store is filed under the key
  string of its own date and has user-entered data, keys are not repeated, the object
  store has the key path \<^verbatim>\<open>dateKey\<close> and each of its values carries its key in that
  property, and a held connection implies that the object store exists.
\<close>

definition invariant :: "World \<Rightarrow> bool" where
  "invariant w \<longleftrightarrow>
     distinct (map fst (fallbackStorage w)) \<and>
     (\<forall>(k, v) \<in> set (fallbackStorage w). k = dateToKey (date v) \<and> hasAnyMealData (meals v)) \<and>
     (db w \<noteq> None \<longrightarrow> objectStore w \<noteq> None) \<and>
     (\<forall>st. objectStore w = Some st \<longrightarrow>
        keyPath st = ''dateKey'' \<and> distinct (map fst (entries st)) \<and>
        (\<forall>(k, v) \<in> set (entries st).
           dateKey v = Some k \<and> k = dateToKey (date v) \<and> hasAnyMealData (meals v)))"

text \<open>The entries of the object store; none before the database has been created.\<close>

definition dbEntries :: "World \<Rightarrow> (string \<times> DailyMealData) list" where
  "dbEntries w = (case objectStore w of None \<Rightarrow> [] | Some st \<Rightarrow> entries st)"



section \<open>Sample inputs\<close>

definition envOk :: Env where
  "envOk =
     \<lparr>indexedDBDefined = True, openOutcome = Succeeds, writeOutcome = Succeeds,
      requestOutcome = Succeeds, now = 1700000000000\<rparr>"

definition envReadFails :: Env where
  "envReadFails = envOk\<lparr>requestOutcome := Fails (Some ''UnknownError'')\<rparr>"

definition envOpenFails :: Env where
  "envOpenFails = envOk\<lparr>openOutcome := Fails (Some ''UnknownError'')\<rparr>"

definition envQuota :: Env where
  "envQuota = envOk\<lparr>writeOutcome := Fails (Some ''QuotaExceededError'')\<rparr>"

definition envWriteFails :: Env where
  "envWriteFails = envOk\<lparr>writeOutcome := Fails (Some ''AbortError'')\<rparr>"

definition jan15 :: DateKey where
  "jan15 = \<lparr>year = 2024, month = 1, day = 15\<rparr>"

definition jan16 :: DateKey where
  "jan16 = \<lparr>year = 2024, month = 1, day = 16\<rparr>"

definition apple :: FoodItem where
  "apple =
     \<lparr>id_str = ''1'', name = ''apple'', calories = 95, carbs = 25, protein = 1 / 2,
      fat = 3 / 10, sugar = 19, sodium = 2, cholesterol = 0\<rparr>"

definition slot :: "MealType \<Rightarrow> FoodItem list \<Rightarrow> string option \<Rightarrow> MealType \<times> MealRecord" where
  "slot t its img = (t, \<lparr>type = t, items = its, image_str = img\<rparr>)"

text \<open>Breakfast holds one apple; every other slot is empty.\<close>

definition appleBreakfast :: Meals where
  "appleBreakfast =
     [slot MORNING_SNACK [] None, slot BREAKFAST [apple] None, slot LATE_MORNING_SNACK [] None,
      slot LUNCH [] None, slot AFTERNOON_SNACK [] None, slot DINNER [] None,
      slot EVENING_SNACK [] None]"

text \<open>Breakfast has an image that is the empty string; nothing else is set.\<close>

definition emptyImageBreakfast :: Meals where
  "emptyImageBreakfast =
     [slot MORNING_SNACK [] None, slot BREAKFAST [] (Some []), slot LATE_MORNING_SNACK [] None,
      slot LUNCH [] None, slot AFTERNOON_SNACK [] None, slot DINNER [] None,
      slot EVENING_SNACK [] None]"

text \<open>The state after one successful save, and the states around a failed open.\<close>

definition savedWorld :: World where
  "savedWorld = snd (saveMealRecords envOk jan15 appleBreakfast initialWorld)"

definition readyWorld :: World where
  "readyWorld = snd (init envOk initialWorld)"

definition fallbackWorld :: World where
  "fallbackWorld = snd (init envOpenFails initialWorld)"


text \<open>
  A service on the fallback path over a database that holds a record for 15 January: the
  page is loaded again after the save, the open request fails, and a day without content
  is saved for 15 January. \<open>afterStaleWorld\<close> is the next page load.
\<close>

definition staleWorld :: World where
  "staleWorld = snd (saveMealRecords envOpenFails jan15 getEmptyMealRecords (reload savedWorld))"

definition afterStaleWorld :: World where
  "afterStaleWorld = reload staleWorld"




section \<open>Properties\<close>

lemma digitChar_inj: "m < 10 \<Longrightarrow> n < 10 \<Longrightarrow> digitChar m = digitChar n \<Longrightarrow> m = n"
  unfolding digitChar_def by (simp add: nth_eq_iff_index_eq)

lemma isDigit_digitChar: "n < 10 \<Longrightarrow> isDigit (digitChar n)"
  unfolding isDigit_def digitChar_def by (rule nth_mem) simp

lemma natToString_small: "n < 10 \<Longrightarrow> natToString n = [digitChar n]"
  by (simp add: natToString.simps)

lemma natToString_large:
  "\<not> n < 10 \<Longrightarrow> natToString n = natToString (n div 10) @ [digitChar (n mod 10)]"
  by (subst natToString.simps) simp

lemma natToString_not_Nil: "natToString n \<noteq> []"
  by (cases "n < 10") (simp_all add: natToString_small natToString_large)

lemma natToString_digits: "list_all isDigit (natToString n)"
proof (induction n rule: natToString.induct)
  case (1 n)
  show ?case
  proof (cases "n < 10")
    case True
    then show ?thesis by (simp add: natToString_small isDigit_digitChar)
  next
    case False
    with 1 show ?thesis by (simp add: natToString_large isDigit_digitChar)
  qed
qed

lemma natToString_inj: "natToString m = natToString n \<Longrightarrow> m = n"
proof (induction m arbitrary: n rule: natToString.induct)
  case (1 m)
  show ?case
  proof (cases "m < 10")
    case True
    with 1(2) have n: "n < 10"
      by (cases "n < 10")
        (auto simp: natToString_small natToString_large natToString_not_Nil[THEN not_sym])
    from 1(2) True n show ?thesis
      by (auto simp: natToString_small dest: digitChar_inj)
  next
    case False
    with 1(2) have n: "\<not> n < 10"
      by (cases "n < 10") (auto simp: natToString_small natToString_large natToString_not_Nil)
    from 1(2) False n have eq: "natToString (m div 10) = natToString (n div 10)"
      and d: "digitChar (m mod 10) = digitChar (n mod 10)"
      by (simp_all add: natToString_large)
    from 1(1)[OF False eq] have "m div 10 = n div 10" .
    moreover from d have "m mod 10 = n mod 10"
      using digitChar_inj[of "m mod 10" "n mod 10"] by simp
    ultimately show ?thesis
      by (metis div_mult_mod_eq)
  qed
qed

lemma minus_not_digit: "\<not> isDigit (CHR ''-'')"
  by (simp add: isDigit_def)

lemma String_number_inj: "String_number i = String_number j \<Longrightarrow> i = j"
proof -
  assume eq: "String_number i = String_number j"
  have hd_nat: "\<And>n. hd (natToString n) \<noteq> CHR ''-''"
  proof -
    fix n
    have "isDigit (hd (natToString n))"
      using natToString_digits[of n] natToString_not_Nil[of n]
      by (cases "natToString n") simp_all
    then show "hd (natToString n) \<noteq> CHR ''-''"
      using minus_not_digit by auto
  qed
  show ?thesis
  proof (cases "i < 0")
    case True
    show ?thesis
    proof (cases "j < 0")
      case True
      with \<open>i < 0\<close> eq have "nat (- i) = nat (- j)"
        by (auto simp: String_number_def dest: natToString_inj)
      with True \<open>i < 0\<close> show ?thesis by simp
    next
      case False
      with \<open>i < 0\<close> eq have "CHR ''-'' = hd (natToString (nat j))"
        by (simp add: String_number_def) (metis list.sel(1))
      with hd_nat show ?thesis by metis
    qed
  next
    case False
    show ?thesis
    proof (cases "j < 0")
      case True
      with False eq have "hd (natToString (nat i)) = CHR ''-''"
        by (simp add: String_number_def)
      with hd_nat show ?thesis by metis
    next
      case jf: False
      with False eq have "nat i = nat j"
        by (auto simp: String_number_def dest: natToString_inj)
      with False jf show ?thesis by simp
    qed
  qed
qed

lemma two_digits:
  assumes "0 \<le> i" "i < 100"
  shows "padStart 2 (CHR ''0'') (String_number i)
           = [digitChar (nat i div 10), digitChar (nat i mod 10)]"
proof (cases "nat i < 10")
  case True
  with assms show ?thesis
    by (simp add: padStart_def String_number_def natToString_small digitChar_def)
next
  case False
  moreover from assms have "nat i div 10 < 10" by simp
  ultimately show ?thesis
    using assms by (simp add: padStart_def String_number_def natToString_large natToString_small)
qed

lemma two_digits_inj:
  assumes "0 \<le> i" "i < 100" "0 \<le> j" "j < 100"
    and "padStart 2 (CHR ''0'') (String_number i) = padStart 2 (CHR ''0'') (String_number j)"
  shows "i = j"
proof -
  from assms have "digitChar (nat i div 10) = digitChar (nat j div 10)"
    and "digitChar (nat i mod 10) = digitChar (nat j mod 10)"
    by (simp_all add: two_digits)
  moreover from assms have "nat i div 10 < 10" "nat j div 10 < 10" by simp_all
  ultimately have "nat i div 10 = nat j div 10" "nat i mod 10 = nat j mod 10"
    using digitChar_inj[of "nat i div 10" "nat j div 10"]
      digitChar_inj[of "nat i mod 10" "nat j mod 10"] by simp_all
  then have "nat i = nat j" by (metis div_mult_mod_eq)
  with assms show ?thesis by simp
qed

lemma dateToKey_valid:
  assumes "validDateKey d"
  shows "dateToKey d = String_number (year d) @ CHR ''-'' #
           [digitChar (nat (month d) div 10), digitChar (nat (month d) mod 10), CHR ''-'',
            digitChar (nat (day d) div 10), digitChar (nat (day d) mod 10)]"
  using assms by (simp add: dateToKey_def validDateKey_def two_digits)

lemma dateToKey_inj_valid:
  assumes "validDateKey d1" "validDateKey d2" "dateToKey d1 = dateToKey d2"
  shows "d1 = d2"
proof -
  from assms have y: "String_number (year d1) = String_number (year d2)"
    and m: "digitChar (nat (month d1) div 10) = digitChar (nat (month d2) div 10)"
           "digitChar (nat (month d1) mod 10) = digitChar (nat (month d2) mod 10)"
    and d: "digitChar (nat (day d1) div 10) = digitChar (nat (day d2) div 10)"
           "digitChar (nat (day d1) mod 10) = digitChar (nat (day d2) mod 10)"
    by (simp_all add: dateToKey_valid)
  from y have "year d1 = year d2" by (rule String_number_inj)
  moreover from assms(1,2) m have "month d1 = month d2"
    by (intro two_digits_inj) (simp_all add: validDateKey_def two_digits)
  moreover from assms(1,2) d have "day d1 = day d2"
    by (intro two_digits_inj) (simp_all add: validDateKey_def two_digits)
  ultimately show ?thesis by simp
qed

lemma four_digits:
  assumes "1000 \<le> n" "n < 10000"
  shows "length (natToString n) = 4"
proof -
  from assms have a: "\<not> n < 10" "\<not> n div 10 < 10" "\<not> n div 10 div 10 < 10" "n div 10 div 10 div 10 < 10"
    by simp_all
  then show ?thesis
    by (simp add: natToString_large natToString_small)
qed

lemma dateToKey_canonical:
  assumes "validDateKey d" "1000 \<le> year d" "year d \<le> 9999"
  shows "isCanonicalForm (dateToKey d)"
proof -
  let ?y = "natToString (nat (year d))"
  from assms have len: "length ?y = 4" by (intro four_digits) simp_all
  have dig: "list_all isDigit ?y" by (rule natToString_digits)
  from assms have key: "dateToKey d = ?y @ CHR ''-'' #
           [digitChar (nat (month d) div 10), digitChar (nat (month d) mod 10), CHR ''-'',
            digitChar (nat (day d) div 10), digitChar (nat (day d) mod 10)]"
    by (simp add: dateToKey_valid String_number_def)
  from assms have "nat (month d) < 100" "nat (day d) < 100"
    unfolding validDateKey_def by linarith+
  then have "nat (month d) div 10 < 10" "nat (day d) div 10 < 10"
    by simp_all
  with len dig show ?thesis
    unfolding key isCanonicalForm_def
    by (simp add: nth_append isDigit_digitChar)
qed


text \<open>
  Claim C4, as amended. For a date key with month in 1..12 and day in 1..31 the key string
  is the decimal year (unpadded), a hyphen, the month as two digits, a hyphen and the day
  as two digits; it has the shape YYYY-MM-DD when the year lies in 1000..9999; and two
  such date keys have the same key string exactly when they are the same triple.
\<close>

theorem dateToKey_format_and_injective:
  assumes "validDateKey d1" and "validDateKey d2"
  shows "dateToKey d1 = String_number (year d1) @ ''-''
            @ [digitChar (nat (month d1) div 10), digitChar (nat (month d1) mod 10)] @ ''-''
            @ [digitChar (nat (day d1) div 10), digitChar (nat (day d1) mod 10)]
         \<and> (1000 \<le> year d1 \<and> year d1 \<le> 9999 \<longrightarrow> isCanonicalForm (dateToKey d1))
         \<and> (dateToKey d1 = dateToKey d2 \<longleftrightarrow> d1 = d2)"
proof (intro conjI impI)
  show "dateToKey d1 = String_number (year d1) @ ''-''
            @ [digitChar (nat (month d1) div 10), digitChar (nat (month d1) mod 10)] @ ''-''
            @ [digitChar (nat (day d1) div 10), digitChar (nat (day d1) mod 10)]"
    using assms(1) by (simp add: dateToKey_valid)
  show "isCanonicalForm (dateToKey d1)" if "1000 \<le> year d1 \<and> year d1 \<le> 9999"
    using assms(1) that by (simp add: dateToKey_canonical)
  show "dateToKey d1 = dateToKey d2 \<longleftrightarrow> d1 = d2"
    using assms dateToKey_inj_valid by blast
qed

theorem dateToKey_format_and_injective_witness:
  "validDateKey \<lparr>year = 2024, month = 1, day = 15\<rparr>
   \<and> validDateKey \<lparr>year = 2024, month = 1, day = 16\<rparr>
   \<and> dateToKey \<lparr>year = 2024, month = 1, day = 15\<rparr> = ''2024-01-15''
   \<and> isCanonicalForm (dateToKey \<lparr>year = 2024, month = 1, day = 15\<rparr>)
   \<and> dateToKey \<lparr>year = 2024, month = 1, day = 15\<rparr>
       \<noteq> dateToKey \<lparr>year = 2024, month = 1, day = 16\<rparr>"
proof -
  have v: "validDateKey \<lparr>year = 2024, month = 1, day = 15\<rparr>"
    "validDateKey \<lparr>year = 2024, month = 1, day = 16\<rparr>"
    by (simp_all add: validDateKey_def)
  have k: "dateToKey \<lparr>year = 2024, month = 1, day = 15\<rparr> = ''2024-01-15''"
    by (simp add: dateToKey_def String_number_def padStart_def natToString.simps digitChar_def)
  note t = dateToKey_format_and_injective[OF v]
  from t[THEN conjunct2, THEN conjunct1]
  have c: "isCanonicalForm (dateToKey \<lparr>year = 2024, month = 1, day = 15\<rparr>)"
    by simp
  from t[THEN conjunct2, THEN conjunct2]
  have n: "dateToKey \<lparr>year = 2024, month = 1, day = 15\<rparr>
       \<noteq> dateToKey \<lparr>year = 2024, month = 1, day = 16\<rparr>"
    by simp
  from v k c n show ?thesis by blast
qed

text \<open>
  Claim C4 as stated fails: the year is not padded, so a valid date key whose year has
  fewer than four digits does not give a string of the shape YYYY-MM-DD.
\<close>

theorem dateToKey_four_digit_year_counterexample:
  "validDateKey \<lparr>year = 999, month = 1, day = 1\<rparr>
   \<and> dateToKey \<lparr>year = 999, month = 1, day = 1\<rparr> = ''999-01-01''
   \<and> \<not> isCanonicalForm (dateToKey \<lparr>year = 999, month = 1, day = 1\<rparr>)"
  by (simp add: validDateKey_def isCanonicalForm_def dateToKey_def String_number_def
      padStart_def natToString.simps digitChar_def)

lemma notifyError_fields [simp]:
  "db (notifyError e w) = db w"
  "useFallback (notifyError e w) = useFallback w"
  "fallbackStorage (notifyError e w) = fallbackStorage w"
  "errorCallback (notifyError e w) = errorCallback w"
  "objectStore (notifyError e w) = objectStore w"
  "idbCalls (notifyError e w) = idbCalls w"
  by (simp_all add: notifyError_def)

lemma transaction_fields [simp]:
  "db (transaction w) = db w"
  "useFallback (transaction w) = useFallback w"
  "fallbackStorage (transaction w) = fallbackStorage w"
  "errorCallback (transaction w) = errorCallback w"
  "objectStore (transaction w) = objectStore w"
  "callbackLog (transaction w) = callbackLog w"
  "idbCalls (transaction w) = idbCalls w @ [Transaction]"
  by (simp_all add: transaction_def)

lemma init_resolves: "fst (init env w) = Resolved ()"
  by (simp add: init_def Let_def split: Outcome.splits)

lemma init_fallback_or_db:
  "useFallback (snd (init env w)) \<or> db (snd (init env w)) \<noteq> None"
  by (simp add: init_def Let_def split: Outcome.splits)

lemma init_unchanged [simp]:
  "fallbackStorage (snd (init env w)) = fallbackStorage w"
  "errorCallback (snd (init env w)) = errorCallback w"
  by (simp_all add: init_def Let_def onupgradeneeded_def split: Outcome.splits option.splits)

text \<open>The three ways through the routing.\<close>

lemma route_cases:
  obtains
    (fallback) "useFallback w" "route env w f g = f w"
  | (lazy_fallback) "\<not> useFallback w" "db w = None" "db (snd (init env w)) = None"
      "useFallback (snd (init env w))" "route env w f g = f (snd (init env w))"
  | (lazy_database) "\<not> useFallback w" "db w = None" "db (snd (init env w)) \<noteq> None"
      "\<not> useFallback (snd (init env w))" "route env w f g = g (snd (init env w))"
  | (database) "\<not> useFallback w" "db w \<noteq> None" "route env w f g = g w"
proof (cases "useFallback w")
  case True
  then show ?thesis using fallback by (simp add: route_def)
next
  case nf: False
  show ?thesis
  proof (cases "db w")
    case (Some c)
    with nf show ?thesis using database by (simp add: route_def)
  next
    case None
    obtain r w1 where i: "init env w = (r, w1)" by (cases "init env w")
    with init_resolves[of env w] have r: "r = Resolved ()" by simp
    show ?thesis
    proof (cases "db w1")
      case n1: None
      with init_fallback_or_db[of env w] i have "useFallback w1" by simp
      with nf None n1 i r show ?thesis using lazy_fallback by (simp add: route_def)
    next
      case (Some c)
      with nf None i have "\<not> useFallback w1"
        by (auto simp: init_def Let_def split: if_splits Outcome.splits)
      with nf None Some i r show ?thesis using lazy_database by (simp add: route_def)
    qed
  qed
qed

lemma route_preserves:
  assumes "P w"
    and "\<And>w. P w \<Longrightarrow> P (snd (init env w))"
    and "\<And>w. P w \<Longrightarrow> P (snd (f w))"
    and "\<And>w. P w \<Longrightarrow> P (snd (g w))"
  shows "P (snd (route env w f g))"
  by (cases rule: route_cases[of w env f g]) (simp_all add: assms)

lemma init_database:
  assumes "\<not> useFallback (snd (init env w))"
  shows "callbackLog (snd (init env w)) = callbackLog w"
    and "objectStore (snd (init env w)) \<noteq> None"
    and "indexedDBDefined env" and "openOutcome env = Succeeds"
  using assms
  by (auto simp: init_def Let_def onupgradeneeded_def isIndexedDBSupported_def
      split: if_splits Outcome.splits option.splits)

lemma getEmptyMealRecords_slots:
  "map fst getEmptyMealRecords = MealType_values"
  by (simp add: getEmptyMealRecords_def comp_def)

lemma getEmptyMealRecords_empty:
  "(t, r) \<in> set getEmptyMealRecords \<Longrightarrow> type r = t \<and> items r = [] \<and> image_str r = None"
  by (auto simp: getEmptyMealRecords_def)

lemma MealType_values_all:
  "distinct MealType_values" "length MealType_values = 7" "set MealType_values = UNIV"
proof -
  show "distinct MealType_values" "length MealType_values = 7"
    by (simp_all add: MealType_values_def)
  show "set MealType_values = UNIV"
  proof -
    have "t \<in> set MealType_values" for t
      by (cases t) (simp_all add: MealType_values_def)
    then show ?thesis by auto
  qed
qed

lemma load_fallback_result:
  "fst (load_fallback k w) =
     Resolved (case map_of (fallbackStorage w) k of None \<Rightarrow> getEmptyMealRecords | Some v \<Rightarrow> meals v)"
  "snd (load_fallback k w) = w"
  by (simp_all add: load_fallback_def split: option.splits)

lemma load_promise_resolves: "\<exists>mls. fst (load_promise env k w) = Resolved mls"
  by (simp add: load_promise_def split: Event.splits option.splits)

lemma load_promise_world:
  "useFallback (snd (load_promise env k w)) = useFallback w"
  "objectStore (snd (load_promise env k w)) = objectStore w"
  "db (snd (load_promise env k w)) = db w"
  "fallbackStorage (snd (load_promise env k w)) = fallbackStorage w"
  by (simp_all add: load_promise_def split: Event.splits option.splits)

lemma store_get_world: "objectStore w1 = objectStore w2 \<Longrightarrow> store_get env k w1 = store_get env k w2"
  by (simp add: store_get_def)

lemma load_promise_absent:
  "map_of (case objectStore w of None \<Rightarrow> [] | Some st \<Rightarrow> entries st) k = None
     \<Longrightarrow> fst (load_promise env k w) = Resolved getEmptyMealRecords"
  by (simp add: load_promise_def store_get_def split: Event.splits option.splits Outcome.splits)

lemma load_promise_failure:
  assumes "store_get env k w = OnError x \<or> store_get env k w = Caught x"
  shows "fst (load_promise env k w) = Resolved getEmptyMealRecords"
    and "errorCallback w \<Longrightarrow>
           callbackLog (snd (load_promise env k w)) = callbackLog w @ [StorageError LOAD_FAILED x]"
  using assms store_get_world[of "transaction w" w env k]
  by (auto simp: load_promise_def notifyError_def)

lemma loadMealRecords_resolves: "\<exists>mls. fst (loadMealRecords env d w) = Resolved mls"
  unfolding loadMealRecords_def
  by (cases rule: route_cases[of w env "load_fallback (dateToKey d)" "load_promise env (dateToKey d)"])
    (simp_all add: load_fallback_result load_promise_resolves)

lemma loadMealRecords_absent:
  assumes "map_of (activeStore (snd (loadMealRecords env d w))) (dateToKey d) = None"
  shows "fst (loadMealRecords env d w) = Resolved getEmptyMealRecords"
  using assms unfolding loadMealRecords_def
  by (cases rule: route_cases[of w env "load_fallback (dateToKey d)" "load_promise env (dateToKey d)"])
    (simp_all add: load_fallback_result load_promise_world activeStore_def load_promise_absent)

lemma loadMealRecords_failure:
  assumes "\<not> useFallback (snd (loadMealRecords env d w))"
    and "store_get env (dateToKey d) (snd (loadMealRecords env d w)) = OnError x
         \<or> store_get env (dateToKey d) (snd (loadMealRecords env d w)) = Caught x"
  shows "fst (loadMealRecords env d w) = Resolved getEmptyMealRecords \<and>
      (errorCallback w \<longrightarrow>
         callbackLog (snd (loadMealRecords env d w)) = callbackLog w @ [StorageError LOAD_FAILED x])"
proof (cases rule: route_cases[of w env "load_fallback (dateToKey d)" "load_promise env (dateToKey d)"])
  case fallback
  with assms(1) show ?thesis by (simp add: loadMealRecords_def load_fallback_result)
next
  case lazy_fallback
  with assms(1) show ?thesis by (simp add: loadMealRecords_def load_fallback_result)
next
  case lazy_database
  let ?k = "dateToKey d"
  let ?w1 = "snd (init env w)"
  from lazy_database have eq: "loadMealRecords env d w = load_promise env ?k ?w1"
    by (simp add: loadMealRecords_def)
  with assms(2) have "store_get env ?k ?w1 = OnError x \<or> store_get env ?k ?w1 = Caught x"
    using store_get_world[of "snd (load_promise env ?k ?w1)" ?w1 env ?k]
    by (simp add: load_promise_world)
  from load_promise_failure[OF this] init_database(1)[OF lazy_database(4)]
  show ?thesis by (simp add: eq)
next
  case database
  let ?k = "dateToKey d"
  from database have eq: "loadMealRecords env d w = load_promise env ?k w"
    by (simp add: loadMealRecords_def)
  with assms(2) have "store_get env ?k w = OnError x \<or> store_get env ?k w = Caught x"
    using store_get_world[of "snd (load_promise env ?k w)" w env ?k]
    by (simp add: load_promise_world)
  from load_promise_failure[OF this] show ?thesis by (simp add: eq)
qed

text \<open>
  Claim C3. \<^verbatim>\<open>loadMealRecords\<close> always resolves. When the store it reads has no entry under
  the key of the date, or the read request fails or throws, it resolves with the default
  mapping: the seven slots of \<^verbatim>\<open>MealType\<close>, each with no items and no image. On a failed
  read the registered error callback has received a \<^verbatim>\<open>LOAD_FAILED\<close> error when the promise
  is settled.
\<close>

theorem loadMealRecords_never_rejects:
  "let k = dateToKey d; r = fst (loadMealRecords env d w); w' = snd (loadMealRecords env d w) in
     (\<exists>mls. r = Resolved mls) \<and>
     (map_of (activeStore w') k = None \<longrightarrow> r = Resolved getEmptyMealRecords) \<and>
     (\<forall>x. \<not> useFallback w' \<and> (store_get env k w' = OnError x \<or> store_get env k w' = Caught x) \<longrightarrow>
        r = Resolved getEmptyMealRecords \<and>
        (errorCallback w \<longrightarrow> callbackLog w' = callbackLog w @ [StorageError LOAD_FAILED x])) \<and>
     map fst getEmptyMealRecords = MealType_values \<and> distinct MealType_values \<and>
     length MealType_values = 7 \<and> set MealType_values = UNIV \<and>
     (\<forall>(t, m) \<in> set getEmptyMealRecords. type m = t \<and> items m = [] \<and> image_str m = None)"
proof -
  have empty: "\<forall>(t, m) \<in> set getEmptyMealRecords. type m = t \<and> items m = [] \<and> image_str m = None"
    using getEmptyMealRecords_empty by blast
  from loadMealRecords_resolves[of env d w] loadMealRecords_absent[of env d w]
    loadMealRecords_failure[of env d w] empty
  show ?thesis
    unfolding Let_def
    by (intro conjI allI impI getEmptyMealRecords_slots MealType_values_all) blast+
qed

theorem loadMealRecords_never_rejects_witness:
  "let w = setErrorCallback initialWorld;
       r = fst (loadMealRecords envReadFails jan16 w);
       w' = snd (loadMealRecords envReadFails jan16 w)
   in map_of (activeStore w') (dateToKey jan16) = None
      \<and> \<not> useFallback w'
      \<and> store_get envReadFails (dateToKey jan16) w' = OnError (Some ''UnknownError'')
      \<and> errorCallback w
      \<and> r = Resolved getEmptyMealRecords
      \<and> callbackLog w' = [StorageError LOAD_FAILED (Some ''UnknownError'')]"
  using loadMealRecords_never_rejects [of jan16 envReadFails "setErrorCallback initialWorld"]
  by (simp add: Let_def loadMealRecords_def route_def init_def isIndexedDBSupported_def
      onupgradeneeded_def load_promise_def store_get_def transaction_def notifyError_def
      activeStore_def envReadFails_def envOk_def setErrorCallback_def initialWorld_def)

subsection \<open>The state invariant\<close>

lemma set_update_subset: "set (AList.update k v al) \<subseteq> insert (k, v) (set al)"
  by (induction al) auto

lemma set_delete_subset: "set (AList.delete k al) \<subseteq> set al"
  by (auto simp: AList.delete_eq)

lemma invariant_initial: "invariant initialWorld"
  by (simp add: invariant_def initialWorld_def)

lemma invariant_reload: "invariant w \<Longrightarrow> invariant (reload w)"
  by (simp add: invariant_def reload_def)

lemma invariant_setErrorCallback: "invariant w \<Longrightarrow> invariant (setErrorCallback w)"
  by (simp add: invariant_def setErrorCallback_def)

lemma invariant_notifyError: "invariant w \<Longrightarrow> invariant (notifyError e w)"
  by (simp add: invariant_def)

lemma invariant_transaction: "invariant w \<Longrightarrow> invariant (transaction w)"
  by (simp add: invariant_def)

lemma invariant_init: "invariant w \<Longrightarrow> invariant (snd (init env w))"
  by (auto simp: invariant_def init_def Let_def onupgradeneeded_def notifyError_def
      split: Outcome.splits option.splits)

lemma invariant_fallback_set:
  assumes "invariant w" "hasAnyMealData mls"
  shows "invariant (w\<lparr>fallbackStorage :=
           AList.update (dateToKey d) \<lparr>date = d, meals = mls, lastModified = t, dateKey = None\<rparr>
             (fallbackStorage w)\<rparr>)"
  using assms set_update_subset[of "dateToKey d" _ "fallbackStorage w"]
  by (fastforce simp: invariant_def distinct_update)

lemma invariant_fallback_delete:
  assumes "invariant w"
  shows "invariant (w\<lparr>fallbackStorage := AList.delete k (fallbackStorage w)\<rparr>)"
  using assms set_delete_subset[of k "fallbackStorage w"]
  by (fastforce simp: invariant_def distinct_delete)

lemma invariant_store_put:
  assumes "invariant w" "hasAnyMealData mls"
  shows "invariant (snd (store_put env
           \<lparr>date = d, meals = mls, lastModified = t, dateKey = Some (dateToKey d)\<rparr> w))"
proof (cases "objectStore w")
  case None
  with assms show ?thesis by (simp add: store_put_def)
next
  case (Some st)
  with assms(1) have kp: "keyPath st = ''dateKey''" by (simp add: invariant_def)
  show ?thesis
  proof (cases "writeOutcome env")
    case Succeeds
    with Some kp assms set_update_subset[of "dateToKey d" _ "entries st"] show ?thesis
      by (fastforce simp: store_put_def extractKey_def invariant_def distinct_update)
  next
    case (Fails x)
    with Some assms show ?thesis by (simp add: store_put_def split: option.splits)
  next
    case (Throws x)
    with Some assms show ?thesis by (simp add: store_put_def)
  qed
qed

lemma invariant_store_delete:
  assumes "invariant w"
  shows "invariant (snd (store_delete env k w))"
proof (cases "objectStore w")
  case None
  with assms show ?thesis by (simp add: store_delete_def)
next
  case (Some st)
  show ?thesis
  proof (cases "requestOutcome env")
    case Succeeds
    with Some assms set_delete_subset[of k "entries st"] show ?thesis
      by (fastforce simp: store_delete_def invariant_def distinct_delete)
  next
    case (Fails x)
    with Some assms show ?thesis by (simp add: store_delete_def)
  next
    case (Throws x)
    with Some assms show ?thesis by (simp add: store_delete_def)
  qed
qed

lemma invariant_delete_promise:
  assumes "invariant w"
  shows "invariant (snd (delete_promise env k w))"
proof -
  obtain ev w1 where s: "store_delete env k (transaction w) = (ev, w1)"
    by (cases "store_delete env k (transaction w)")
  from invariant_store_delete[OF invariant_transaction[OF assms], of env k] s
  have "invariant w1" by simp
  with s show ?thesis
    by (cases ev) (simp_all add: delete_promise_def invariant_notifyError)
qed

lemma invariant_save_promise:
  assumes "invariant w" "hasAnyMealData mls"
  shows "invariant (snd (save_promise env (dateToKey d)
           \<lparr>date = d, meals = mls, lastModified = t, dateKey = None\<rparr> w))"
proof -
  let ?v = "\<lparr>date = d, meals = mls, lastModified = t, dateKey = Some (dateToKey d)\<rparr>"
  obtain ev w1 where s: "store_put env ?v (transaction w) = (ev, w1)"
    by (cases "store_put env ?v (transaction w)")
  from invariant_store_put[OF invariant_transaction[OF assms(1)] assms(2), of env d t] s
  have "invariant w1" by simp
  with s show ?thesis
    by (cases ev) (simp_all add: save_promise_def invariant_notifyError)
qed

lemma invariant_load_promise: "invariant w \<Longrightarrow> invariant (snd (load_promise env k w))"
  by (simp add: load_promise_def invariant_notifyError invariant_transaction
      split: Event.splits option.splits)

lemma invariant_dates_promise: "invariant w \<Longrightarrow> invariant (snd (dates_promise env w))"
  by (simp add: dates_promise_def invariant_notifyError invariant_transaction
      split: Event.splits)

lemma invariant_all_promise: "invariant w \<Longrightarrow> invariant (snd (all_promise env w))"
  by (simp add: all_promise_def invariant_notifyError invariant_transaction
      split: Event.splits)

lemma invariant_deleteMealRecords:
  "invariant w \<Longrightarrow> invariant (snd (deleteMealRecords env d w))"
  unfolding deleteMealRecords_def
  by (rule route_preserves)
    (simp_all add: invariant_init invariant_fallback_delete invariant_delete_promise)

lemma invariant_saveMealRecords:
  assumes "invariant w"
  shows "invariant (snd (saveMealRecords env d mls w))"
proof (cases "hasAnyMealData mls")
  case False
  with assms show ?thesis
    by (simp add: saveMealRecords_def invariant_deleteMealRecords)
next
  case True
  then have "saveMealRecords env d mls w =
      route env w
        (\<lambda>w1. (Resolved (), w1\<lparr>fallbackStorage := AList.update (dateToKey d)
            \<lparr>date = d, meals = mls, lastModified = now env, dateKey = None\<rparr> (fallbackStorage w1)\<rparr>))
        (save_promise env (dateToKey d)
            \<lparr>date = d, meals = mls, lastModified = now env, dateKey = None\<rparr>)"
    by (simp add: saveMealRecords_def Let_def)
  with assms True show ?thesis
    by (simp only:) (rule route_preserves,
        simp_all add: invariant_init invariant_fallback_set invariant_save_promise)
qed

lemma invariant_loadMealRecords:
  "invariant w \<Longrightarrow> invariant (snd (loadMealRecords env d w))"
  unfolding loadMealRecords_def
  by (rule route_preserves)
    (simp_all add: invariant_init load_fallback_result invariant_load_promise)

lemma invariant_getAllDatesWithData:
  "invariant w \<Longrightarrow> invariant (snd (getAllDatesWithData env w))"
  unfolding getAllDatesWithData_def
  by (rule route_preserves)
    (simp_all add: invariant_init dates_fallback_def invariant_dates_promise)

lemma invariant_getAllMealData:
  "invariant w \<Longrightarrow> invariant (snd (getAllMealData env w))"
  unfolding getAllMealData_def
  by (rule route_preserves)
    (simp_all add: invariant_init all_fallback_def invariant_all_promise)

lemma invariant_step: "invariant w \<Longrightarrow> invariant (step env c w)"
  by (cases c)
    (simp_all add: invariant_init invariant_setErrorCallback invariant_saveMealRecords
      invariant_loadMealRecords invariant_deleteMealRecords invariant_getAllDatesWithData
      invariant_getAllMealData)

lemma reachable_invariant: "reachable w \<Longrightarrow> invariant w"
  by (induction rule: reachable.induct)
    (simp_all add: invariant_initial invariant_step invariant_reload)

subsection \<open>Writes\<close>

lemma hasAnyMealData_hasRealContent: "hasAnyMealData mls \<Longrightarrow> hasRealContent mls"
  by (auto simp: hasAnyMealData_def hasRealContent_def list_ex_iff Boolean_image_def
      split: option.splits)

lemma save_promise_fails:
  assumes "objectStore w = Some st" "keyPath st = ''dateKey''" "writeOutcome env = Fails x"
  shows "save_promise env k data w =
     (let e = StorageError (if x = Some ''QuotaExceededError'' then QUOTA_EXCEEDED else SAVE_FAILED) x
      in (Rejected e, notifyError e (transaction w)))"
  using assms by (simp add: save_promise_def store_put_def extractKey_def Let_def)

lemma save_promise_resolved:
  assumes "fst (save_promise env k data w) = Resolved ()"
  shows "\<exists>st. objectStore w = Some st \<and>
           snd (save_promise env k data w) =
             (transaction w)\<lparr>objectStore :=
                Some (st\<lparr>entries := AList.update k (data\<lparr>dateKey := Some k\<rparr>) (entries st)\<rparr>)\<rparr>"
  using assms
  by (auto simp: save_promise_def store_put_def extractKey_def
      split: option.splits Outcome.splits if_splits)

lemma delete_promise_resolved:
  assumes "fst (delete_promise env k w) = Resolved ()"
  shows "\<exists>st. objectStore w = Some st \<and>
           snd (delete_promise env k w) =
             (transaction w)\<lparr>objectStore := Some (st\<lparr>entries := AList.delete k (entries st)\<rparr>)\<rparr>"
  using assms
  by (auto simp: delete_promise_def store_delete_def split: option.splits Outcome.splits)

lemma map_of_delete_same: "map_of (AList.delete k al) k = None"
  by (simp add: delete_conv')

lemma map_of_update_same: "map_of (AList.update k v al) k = Some v"
  by (simp add: update_conv')

lemma deleteMealRecords_resolved:
  assumes "fst (deleteMealRecords env d w) = Resolved ()"
  shows "useFallback (snd (deleteMealRecords env d w)) \<or> db (snd (deleteMealRecords env d w)) \<noteq> None"
    and "map_of (activeStore (snd (deleteMealRecords env d w))) (dateToKey d) = None"
proof -
  let ?f = "\<lambda>w1. (Resolved (), w1\<lparr>fallbackStorage := AList.delete (dateToKey d) (fallbackStorage w1)\<rparr>)"
  let ?g = "delete_promise env (dateToKey d)"
  have "(useFallback (snd (deleteMealRecords env d w)) \<or> db (snd (deleteMealRecords env d w)) \<noteq> None)
      \<and> map_of (activeStore (snd (deleteMealRecords env d w))) (dateToKey d) = None"
  proof (cases rule: route_cases[of w env ?f ?g])
    case fallback
    then show ?thesis
      by (simp add: deleteMealRecords_def activeStore_def map_of_delete_same)
  next
    case lazy_fallback
    then show ?thesis
      by (simp add: deleteMealRecords_def activeStore_def map_of_delete_same)
  next
    case lazy_database
    with assms have "fst (?g (snd (init env w))) = Resolved ()"
      by (simp add: deleteMealRecords_def)
    from delete_promise_resolved[OF this] lazy_database show ?thesis
      by (auto simp: deleteMealRecords_def activeStore_def map_of_delete_same)
  next
    case database
    with assms have "fst (?g w) = Resolved ()"
      by (simp add: deleteMealRecords_def)
    from delete_promise_resolved[OF this] database show ?thesis
      by (auto simp: deleteMealRecords_def activeStore_def map_of_delete_same)
  qed
  then show "useFallback (snd (deleteMealRecords env d w)) \<or> db (snd (deleteMealRecords env d w)) \<noteq> None"
    and "map_of (activeStore (snd (deleteMealRecords env d w))) (dateToKey d) = None"
    by simp_all
qed

lemma saveMealRecords_content:
  assumes "hasAnyMealData mls"
  shows "saveMealRecords env d mls w =
      route env w
        (\<lambda>w1. (Resolved (), w1\<lparr>fallbackStorage := AList.update (dateToKey d)
            \<lparr>date = d, meals = mls, lastModified = now env, dateKey = None\<rparr> (fallbackStorage w1)\<rparr>))
        (save_promise env (dateToKey d)
            \<lparr>date = d, meals = mls, lastModified = now env, dateKey = None\<rparr>)"
  using assms by (simp add: saveMealRecords_def Let_def)

lemma saveMealRecords_resolved:
  assumes "hasAnyMealData mls" "fst (saveMealRecords env d mls w) = Resolved ()"
  shows "useFallback (snd (saveMealRecords env d mls w)) \<or> db (snd (saveMealRecords env d mls w)) \<noteq> None"
    and "\<exists>v. map_of (activeStore (snd (saveMealRecords env d mls w))) (dateToKey d) = Some v
           \<and> date v = d \<and> meals v = mls \<and> lastModified v = now env"
proof -
  let ?data = "\<lparr>date = d, meals = mls, lastModified = now env, dateKey = None\<rparr>"
  let ?f = "\<lambda>w1. (Resolved (), w1\<lparr>fallbackStorage := AList.update (dateToKey d) ?data (fallbackStorage w1)\<rparr>)"
  let ?g = "save_promise env (dateToKey d) ?data"
  note eq = saveMealRecords_content[OF assms(1), of env d w]
  have "(useFallback (snd (saveMealRecords env d mls w)) \<or> db (snd (saveMealRecords env d mls w)) \<noteq> None)
      \<and> (\<exists>v. map_of (activeStore (snd (saveMealRecords env d mls w))) (dateToKey d) = Some v
           \<and> date v = d \<and> meals v = mls \<and> lastModified v = now env)"
  proof (cases rule: route_cases[of w env ?f ?g])
    case fallback
    then show ?thesis
      by (simp add: eq activeStore_def map_of_update_same)
  next
    case lazy_fallback
    then show ?thesis
      by (simp add: eq activeStore_def map_of_update_same)
  next
    case lazy_database
    with assms(2) have "fst (?g (snd (init env w))) = Resolved ()"
      by (simp add: eq)
    from save_promise_resolved[OF this] lazy_database show ?thesis
      by (auto simp: eq activeStore_def map_of_update_same)
  next
    case database
    with assms(2) have "fst (?g w) = Resolved ()"
      by (simp add: eq)
    from save_promise_resolved[OF this] database show ?thesis
      by (auto simp: eq activeStore_def map_of_update_same)
  qed
  then show "useFallback (snd (saveMealRecords env d mls w)) \<or> db (snd (saveMealRecords env d mls w)) \<noteq> None"
    and "\<exists>v. map_of (activeStore (snd (saveMealRecords env d mls w))) (dateToKey d) = Some v
           \<and> date v = d \<and> meals v = mls \<and> lastModified v = now env"
    by simp_all
qed

lemma loadMealRecords_active:
  assumes "useFallback w \<or> db w \<noteq> None"
  shows "activeStore (snd (loadMealRecords env d w)) = activeStore w"
    and "useFallback w \<or> requestOutcome env = Succeeds \<Longrightarrow>
         fst (loadMealRecords env d w) =
           Resolved (case map_of (activeStore w) (dateToKey d) of
                       None \<Rightarrow> getEmptyMealRecords | Some v \<Rightarrow> meals v)"
proof -
  show "activeStore (snd (loadMealRecords env d w)) = activeStore w"
    using assms
    by (cases rule: route_cases[of w env "load_fallback (dateToKey d)" "load_promise env (dateToKey d)"])
      (simp_all add: loadMealRecords_def load_fallback_result load_promise_world activeStore_def)
  show "fst (loadMealRecords env d w) =
           Resolved (case map_of (activeStore w) (dateToKey d) of
                       None \<Rightarrow> getEmptyMealRecords | Some v \<Rightarrow> meals v)"
    if "useFallback w \<or> requestOutcome env = Succeeds"
    using assms that
    by (cases rule: route_cases[of w env "load_fallback (dateToKey d)" "load_promise env (dateToKey d)"])
      (auto simp: loadMealRecords_def load_fallback_result activeStore_def load_promise_def
        store_get_def split: option.splits)
qed

text \<open>
  Claim C1, as amended. Let \<^verbatim>\<open>saveMealRecords(d, m)\<close> resolve. If some slot of \<open>m\<close> has a
  non-empty item list or a non-empty image string (\<open>hasAnyMealData\<close>) and the read request
  of the following \<^verbatim>\<open>loadMealRecords(d)\<close> does not fail, the load resolves with \<open>m\<close> itself,
  every field of every item and every image string included. If no slot of \<open>m\<close> has one,
  the load resolves with the default mapping of seven empty slots.
\<close>

theorem save_then_load_round_trip:
  assumes "fst (saveMealRecords env1 d mls w) = Resolved ()"
  shows "(hasAnyMealData mls \<and> requestOutcome env2 = Succeeds \<longrightarrow>
            fst (loadMealRecords env2 d (snd (saveMealRecords env1 d mls w))) = Resolved mls)
         \<and> (\<not> hasAnyMealData mls \<longrightarrow>
            fst (loadMealRecords env2 d (snd (saveMealRecords env1 d mls w)))
              = Resolved getEmptyMealRecords)"
proof (intro conjI impI)
  let ?w1 = "snd (saveMealRecords env1 d mls w)"
  assume c: "hasAnyMealData mls \<and> requestOutcome env2 = Succeeds"
  from saveMealRecords_resolved[OF _ assms] c
  obtain v where s: "useFallback ?w1 \<or> db ?w1 \<noteq> None"
    and v: "map_of (activeStore ?w1) (dateToKey d) = Some v" "meals v = mls"
    by blast
  from loadMealRecords_active(2)[OF s, of env2 d] c v
  show "fst (loadMealRecords env2 d ?w1) = Resolved mls" by simp
next
  let ?w1 = "snd (saveMealRecords env1 d mls w)"
  assume c: "\<not> hasAnyMealData mls"
  then have eq: "saveMealRecords env1 d mls w = deleteMealRecords env1 d w"
    by (simp add: saveMealRecords_def)
  with assms have r: "fst (deleteMealRecords env1 d w) = Resolved ()" by simp
  from deleteMealRecords_resolved[OF r] eq
  have s: "useFallback ?w1 \<or> db ?w1 \<noteq> None"
    and n: "map_of (activeStore ?w1) (dateToKey d) = None"
    by simp_all
  from loadMealRecords_active(1)[OF s, of env2 d] n
  have "map_of (activeStore (snd (loadMealRecords env2 d ?w1))) (dateToKey d) = None"
    by simp
  then show "fst (loadMealRecords env2 d ?w1) = Resolved getEmptyMealRecords"
    by (rule loadMealRecords_absent)
qed


theorem save_then_load_round_trip_witness:
  "fst (saveMealRecords envOk jan15 appleBreakfast initialWorld) = Resolved ()
   \<and> hasAnyMealData appleBreakfast \<and> requestOutcome envOk = Succeeds
   \<and> fst (loadMealRecords envOk jan15 (snd (saveMealRecords envOk jan15 appleBreakfast initialWorld)))
       = Resolved appleBreakfast
   \<and> fst (saveMealRecords envOk jan15 getEmptyMealRecords initialWorld) = Resolved ()
   \<and> \<not> hasAnyMealData getEmptyMealRecords
   \<and> fst (loadMealRecords envOk jan15
             (snd (saveMealRecords envOk jan15 getEmptyMealRecords initialWorld)))
       = Resolved getEmptyMealRecords"
proof -
  have a: "hasAnyMealData appleBreakfast"
    by (simp add: hasAnyMealData_def appleBreakfast_def slot_def)
  have e: "\<not> hasAnyMealData getEmptyMealRecords"
    by (simp add: hasAnyMealData_def getEmptyMealRecords_def MealType_values_def
        Boolean_image_def)
  have s1: "fst (saveMealRecords envOk jan15 appleBreakfast initialWorld) = Resolved ()"
    by (simp add: saveMealRecords_content[OF a] route_def init_def isIndexedDBSupported_def
        onupgradeneeded_def save_promise_def store_put_def extractKey_def transaction_def
        envOk_def initialWorld_def)
  have s2: "fst (saveMealRecords envOk jan15 getEmptyMealRecords initialWorld) = Resolved ()"
    using e
    by (simp add: saveMealRecords_def deleteMealRecords_def route_def init_def
        isIndexedDBSupported_def onupgradeneeded_def delete_promise_def store_delete_def
        transaction_def envOk_def initialWorld_def)
  have r: "requestOutcome envOk = Succeeds" by (simp add: envOk_def)
  from save_then_load_round_trip[OF s1, of envOk] save_then_load_round_trip[OF s2, of envOk]
    a e s1 s2 r
  show ?thesis by blast
qed

text \<open>
  Claim C1 as stated fails. A mapping of the seven slots whose only content is an image
  that is the empty string has a non-null image, so it has real content in the sense of
  the claim; \<^verbatim>\<open>Boolean('')\<close> is false, so the save is routed to the delete and the load
  resolves with the default mapping, which has no image.
\<close>

theorem save_then_load_empty_image_counterexample:
  "validDateKey jan15 \<and> isSlotMapping emptyImageBreakfast \<and> hasRealContent emptyImageBreakfast
   \<and> fst (saveMealRecords envOk jan15 emptyImageBreakfast initialWorld) = Resolved ()
   \<and> fst (loadMealRecords envOk jan15
             (snd (saveMealRecords envOk jan15 emptyImageBreakfast initialWorld)))
       = Resolved getEmptyMealRecords
   \<and> getEmptyMealRecords \<noteq> emptyImageBreakfast"
proof -
  have n: "\<not> hasAnyMealData emptyImageBreakfast"
    by (simp add: hasAnyMealData_def emptyImageBreakfast_def slot_def Boolean_image_def)
  have s: "saveMealRecords envOk jan15 emptyImageBreakfast initialWorld =
      (Resolved (),
       \<lparr>db = Some 1, useFallback = False, fallbackStorage = [], errorCallback = False,
        objectStore = Some \<lparr>keyPath = ''dateKey'', entries = []\<rparr>,
        idbCalls = [Open, Transaction], callbackLog = []\<rparr>)"
    using n
    by (simp add: saveMealRecords_def deleteMealRecords_def route_def init_def
        isIndexedDBSupported_def onupgradeneeded_def delete_promise_def store_delete_def
        transaction_def envOk_def initialWorld_def)
  have l: "fst (loadMealRecords envOk jan15
      \<lparr>db = Some 1, useFallback = False, fallbackStorage = [], errorCallback = False,
        objectStore = Some \<lparr>keyPath = ''dateKey'', entries = []\<rparr>,
        idbCalls = [Open, Transaction], callbackLog = []\<rparr>) = Resolved getEmptyMealRecords"
    by (simp add: loadMealRecords_def route_def load_promise_def store_get_def transaction_def
        envOk_def)
  have "validDateKey jan15" by (simp add: validDateKey_def jan15_def)
  moreover have "isSlotMapping emptyImageBreakfast"
    by (simp add: isSlotMapping_def emptyImageBreakfast_def slot_def MealType_values_def)
  moreover have "hasRealContent emptyImageBreakfast"
    by (simp add: hasRealContent_def emptyImageBreakfast_def slot_def)
  moreover have "getEmptyMealRecords \<noteq> emptyImageBreakfast"
    by (simp add: getEmptyMealRecords_def emptyImageBreakfast_def slot_def MealType_values_def)
  ultimately show ?thesis using s l by simp
qed

text \<open>
  Claim C6. Let \<^verbatim>\<open>saveMealRecords\<close> be called in a reachable state with data to store, while
  the service is not on the fallback path and reaches the database (a connection is held,
  or the lazy open succeeds), and let the write transaction fire its error handler with an
  error named \<open>x\<close>. Then the promise rejects with a \<^verbatim>\<open>StorageError\<close> of type
  \<^verbatim>\<open>QUOTA_EXCEEDED\<close> when \<open>x\<close> is \<^verbatim>\<open>QuotaExceededError\<close> and of type \<^verbatim>\<open>SAVE_FAILED\<close>
  otherwise; the two types differ; the registered error callback has received the same
  error; and nothing has been written.
\<close>

theorem saveMealRecords_write_failure_classified:
  assumes "reachable w" and "hasAnyMealData mls" and "\<not> useFallback w"
    and "db w \<noteq> None \<or> indexedDBDefined env \<and> openOutcome env = Succeeds"
    and "writeOutcome env = Fails x"
  shows "let e = StorageError
                   (if x = Some ''QuotaExceededError'' then QUOTA_EXCEEDED else SAVE_FAILED) x;
             w' = snd (saveMealRecords env d mls w)
         in fst (saveMealRecords env d mls w) = Rejected e
            \<and> (errorCallback w \<longrightarrow> callbackLog w' = callbackLog w @ [e])
            \<and> QUOTA_EXCEEDED \<noteq> SAVE_FAILED
            \<and> storedRecords w' = storedRecords w"
proof -
  let ?data = "\<lparr>date = d, meals = mls, lastModified = now env, dateKey = None\<rparr>"
  let ?f = "\<lambda>w1. (Resolved (), w1\<lparr>fallbackStorage := AList.update (dateToKey d) ?data (fallbackStorage w1)\<rparr>)"
  let ?g = "save_promise env (dateToKey d) ?data"
  note eq = saveMealRecords_content[OF assms(2), of env d w]
  note inv = reachable_invariant[OF assms(1)]
  show ?thesis
  proof (cases rule: route_cases[of w env ?f ?g])
    case fallback
    with assms(3) show ?thesis by simp
  next
    case lazy_fallback
    with assms(4) show ?thesis
      by (simp add: init_def isIndexedDBSupported_def Let_def)
  next
    case lazy_database
    let ?w1 = "snd (init env w)"
    from init_database(2)[OF lazy_database(4)] obtain st where st: "objectStore ?w1 = Some st"
      by blast
    with invariant_init[OF inv, of env] have kp: "keyPath st = ''dateKey''"
      by (simp add: invariant_def)
    have stored: "storedRecords ?w1 = storedRecords w"
      using lazy_database(1,2)
      by (auto simp: storedRecords_def init_def Let_def onupgradeneeded_def
          split: Outcome.splits option.splits if_splits)
    from save_promise_fails[OF st kp assms(5)] lazy_database
      init_database(1)[OF lazy_database(4)] stored
    show ?thesis
      by (simp add: eq Let_def notifyError_def storedRecords_def)
  next
    case database
    with inv obtain st where st: "objectStore w = Some st" and kp: "keyPath st = ''dateKey''"
      by (auto simp: invariant_def)
    from save_promise_fails[OF st kp assms(5)] database show ?thesis
      by (simp add: eq Let_def notifyError_def storedRecords_def)
  qed
qed

theorem saveMealRecords_write_failure_classified_witness:
  "let w = setErrorCallback initialWorld in
     reachable w \<and> hasAnyMealData appleBreakfast \<and> \<not> useFallback w
     \<and> indexedDBDefined envQuota \<and> openOutcome envQuota = Succeeds
     \<and> writeOutcome envQuota = Fails (Some ''QuotaExceededError'')
     \<and> writeOutcome envWriteFails = Fails (Some ''AbortError'')
     \<and> errorCallback w
     \<and> fst (saveMealRecords envQuota jan15 appleBreakfast w)
         = Rejected (StorageError QUOTA_EXCEEDED (Some ''QuotaExceededError''))
     \<and> callbackLog (snd (saveMealRecords envQuota jan15 appleBreakfast w))
         = [StorageError QUOTA_EXCEEDED (Some ''QuotaExceededError'')]
     \<and> fst (saveMealRecords envWriteFails jan15 appleBreakfast w)
         = Rejected (StorageError SAVE_FAILED (Some ''AbortError''))
     \<and> callbackLog (snd (saveMealRecords envWriteFails jan15 appleBreakfast w))
         = [StorageError SAVE_FAILED (Some ''AbortError'')]"
proof -
  let ?w = "setErrorCallback initialWorld"
  have a: "hasAnyMealData appleBreakfast"
    by (simp add: hasAnyMealData_def appleBreakfast_def slot_def)
  have r: "reachable ?w"
    using reachable_step[OF reachable_initial, of envOk SetErrorCallback] by simp
  have w: "\<not> useFallback ?w" "db ?w = None" "errorCallback ?w" "callbackLog ?w = []"
    by (simp_all add: setErrorCallback_def initialWorld_def)
  have q: "indexedDBDefined envQuota" "openOutcome envQuota = Succeeds"
    "writeOutcome envQuota = Fails (Some ''QuotaExceededError'')"
    by (simp_all add: envQuota_def envOk_def)
  have f: "indexedDBDefined envWriteFails" "openOutcome envWriteFails = Succeeds"
    "writeOutcome envWriteFails = Fails (Some ''AbortError'')"
    by (simp_all add: envWriteFails_def envOk_def)
  from saveMealRecords_write_failure_classified[OF r a w(1) _ q(3), of jan15]
    saveMealRecords_write_failure_classified[OF r a w(1) _ f(3), of jan15]
    r a w q f
  show ?thesis by (simp add: Let_def)
qed

subsection \<open>Saving a day without content\<close>

lemma storedRecords_init: "storedRecords (snd (init env w)) = storedRecords w"
  by (auto simp: storedRecords_def init_def Let_def onupgradeneeded_def notifyError_def
      split: Outcome.splits option.splits)

lemma storedRecords_delete_promise:
  "storedRecords (snd (delete_promise env k w)) \<subseteq> storedRecords w"
  using set_delete_subset[of k]
  by (auto simp: delete_promise_def store_delete_def storedRecords_def notifyError_def
      transaction_def split: option.splits Outcome.splits)

lemma storedRecords_deleteMealRecords:
  "storedRecords (snd (deleteMealRecords env d w)) \<subseteq> storedRecords w"
proof -
  let ?f = "\<lambda>w1. (Resolved (), w1\<lparr>fallbackStorage := AList.delete (dateToKey d) (fallbackStorage w1)\<rparr>)"
  have f: "storedRecords (snd (?f w1)) \<subseteq> storedRecords w1" for w1
    using set_delete_subset[of "dateToKey d" "fallbackStorage w1"]
    by (auto simp: storedRecords_def)
  show ?thesis
  proof (cases rule: route_cases[of w env ?f "delete_promise env (dateToKey d)"])
    case fallback
    with f[of w] show ?thesis by (simp only: deleteMealRecords_def)
  next
    case lazy_fallback
    with f[of "snd (init env w)"] storedRecords_init[of env w] show ?thesis
      by (simp only: deleteMealRecords_def)
  next
    case lazy_database
    with storedRecords_delete_promise[of env "dateToKey d" "snd (init env w)"]
      storedRecords_init[of env w]
    show ?thesis by (simp only: deleteMealRecords_def)
  next
    case database
    with storedRecords_delete_promise[of env "dateToKey d" w] show ?thesis
      by (simp only: deleteMealRecords_def)
  qed
qed

lemma invariant_hasRealContent:
  assumes "invariant w" "v \<in> storedRecords w"
  shows "hasRealContent (meals v)"
proof -
  from assms have "hasAnyMealData (meals v)"
    by (fastforce simp: invariant_def storedRecords_def split: option.splits)
  then show ?thesis by (rule hasAnyMealData_hasRealContent)
qed

lemma dbEntries_unchanged [simp]:
  "dbEntries (transaction w) = dbEntries w"
  "dbEntries (notifyError e w) = dbEntries w"
  "dbEntries (snd (init env w)) = dbEntries w"
  by (auto simp: dbEntries_def init_def Let_def onupgradeneeded_def
      split: Outcome.splits option.splits)

lemma delete_promise_exact:
  "if fst (delete_promise env k w) = Resolved ()
   then dbEntries (snd (delete_promise env k w)) = AList.delete k (dbEntries w)
   else dbEntries (snd (delete_promise env k w)) = dbEntries w"
  by (auto simp: delete_promise_def store_delete_def dbEntries_def
      split: option.splits Outcome.splits)

lemma delete_promise_others:
  "useFallback (snd (delete_promise env k w)) = useFallback w"
  "fallbackStorage (snd (delete_promise env k w)) = fallbackStorage w"
  by (auto simp: delete_promise_def store_delete_def split: option.splits Outcome.splits)

text \<open>
  What \<^verbatim>\<open>deleteMealRecords\<close> does to the two stores: one entry leaves the store the call is
  routed to when it resolves, and nothing else changes.
\<close>

lemma deleteMealRecords_exact:
  "if fst (deleteMealRecords env d w) = Resolved () then
     (if useFallback (snd (deleteMealRecords env d w)) then
        fallbackStorage (snd (deleteMealRecords env d w))
          = AList.delete (dateToKey d) (fallbackStorage w)
        \<and> dbEntries (snd (deleteMealRecords env d w)) = dbEntries w
      else
        dbEntries (snd (deleteMealRecords env d w)) = AList.delete (dateToKey d) (dbEntries w)
        \<and> fallbackStorage (snd (deleteMealRecords env d w)) = fallbackStorage w)
   else
     fallbackStorage (snd (deleteMealRecords env d w)) = fallbackStorage w
     \<and> dbEntries (snd (deleteMealRecords env d w)) = dbEntries w"
proof -
  let ?f = "\<lambda>w1. (Resolved (), w1\<lparr>fallbackStorage := AList.delete (dateToKey d) (fallbackStorage w1)\<rparr>)"
  let ?g = "delete_promise env (dateToKey d)"
  have f: "dbEntries (w1\<lparr>fallbackStorage := x\<rparr>) = dbEntries w1" for w1 x
    by (simp add: dbEntries_def)
  show ?thesis
  proof (cases rule: route_cases[of w env ?f ?g])
    case fallback
    then show ?thesis by (simp add: deleteMealRecords_def f)
  next
    case lazy_fallback
    then show ?thesis by (simp add: deleteMealRecords_def f)
  next
    case lazy_database
    with delete_promise_exact[of env "dateToKey d" "snd (init env w)"] show ?thesis
      by (simp add: deleteMealRecords_def delete_promise_others split: if_splits)
  next
    case database
    with delete_promise_exact[of env "dateToKey d" w] show ?thesis
      by (simp add: deleteMealRecords_def delete_promise_others split: if_splits)
  qed
qed

text \<open>
  Claim C2, as amended. When no slot of the mapping has a non-empty item list or a
  non-null image, \<^verbatim>\<open>saveMealRecords(d, m)\<close> is \<^verbatim>\<open>deleteMealRecords(d)\<close>: it adds no record
  to either store. When it resolves, the store in use has no entry under the key of \<open>d\<close>:
  on the fallback path that entry has left the in-memory map and the database is as it
  was, otherwise it has left the database and the in-memory map is as it was. When it
  rejects, both stores are as they were. In every reachable state every stored record has
  real content.
\<close>

theorem saveMealRecords_without_content_deletes:
  assumes "\<not> hasRealContent mls"
  shows "saveMealRecords env d mls w = deleteMealRecords env d w
         \<and> storedRecords (snd (saveMealRecords env d mls w)) \<subseteq> storedRecords w
         \<and> (fst (saveMealRecords env d mls w) = Resolved () \<longrightarrow>
              map_of (activeStore (snd (saveMealRecords env d mls w))) (dateToKey d) = None
              \<and> (if useFallback (snd (saveMealRecords env d mls w)) then
                    fallbackStorage (snd (saveMealRecords env d mls w))
                      = AList.delete (dateToKey d) (fallbackStorage w)
                    \<and> dbEntries (snd (saveMealRecords env d mls w)) = dbEntries w
                  else
                    dbEntries (snd (saveMealRecords env d mls w))
                      = AList.delete (dateToKey d) (dbEntries w)
                    \<and> fallbackStorage (snd (saveMealRecords env d mls w)) = fallbackStorage w))
         \<and> (fst (saveMealRecords env d mls w) \<noteq> Resolved () \<longrightarrow>
              fallbackStorage (snd (saveMealRecords env d mls w)) = fallbackStorage w
              \<and> dbEntries (snd (saveMealRecords env d mls w)) = dbEntries w)
         \<and> (\<forall>w0. reachable w0 \<longrightarrow> (\<forall>v \<in> storedRecords w0. hasRealContent (meals v)))"
proof -
  from assms have "\<not> hasAnyMealData mls"
    using hasAnyMealData_hasRealContent by blast
  then have eq: "saveMealRecords env d mls w = deleteMealRecords env d w"
    by (simp add: saveMealRecords_def)
  have sub: "storedRecords (snd (deleteMealRecords env d w)) \<subseteq> storedRecords w"
    by (rule storedRecords_deleteMealRecords)
  have gone: "map_of (activeStore (snd (deleteMealRecords env d w))) (dateToKey d) = None"
    if "fst (deleteMealRecords env d w) = Resolved ()"
    using that by (rule deleteMealRecords_resolved(2))
  have inv: "\<forall>w0. reachable w0 \<longrightarrow> (\<forall>v \<in> storedRecords w0. hasRealContent (meals v))"
    using reachable_invariant invariant_hasRealContent by blast
  from sub gone inv deleteMealRecords_exact[of env d w] show ?thesis
    unfolding eq by (simp split: if_splits)
qed

lemma reload_savedWorld_eq:
  "reload savedWorld =
      \<lparr>db = None, useFallback = False, fallbackStorage = [], errorCallback = False,
       objectStore = Some \<lparr>keyPath = ''dateKey'',
         entries = [(dateToKey jan15,
           \<lparr>date = jan15, meals = appleBreakfast, lastModified = 1700000000000,
            dateKey = Some (dateToKey jan15)\<rparr>)]\<rparr>,
       idbCalls = [Open, Transaction], callbackLog = []\<rparr>"
proof -
  have a: "hasAnyMealData appleBreakfast"
    by (simp add: hasAnyMealData_def appleBreakfast_def slot_def)
  show ?thesis
    unfolding savedWorld_def
    by (simp add: reload_def saveMealRecords_content[OF a] route_def init_def
        isIndexedDBSupported_def onupgradeneeded_def save_promise_def store_put_def
        extractKey_def transaction_def envOk_def initialWorld_def)
qed

lemma staleWorld_eq:
  "staleWorld =
      \<lparr>db = None, useFallback = True, fallbackStorage = [], errorCallback = False,
       objectStore = Some \<lparr>keyPath = ''dateKey'',
         entries = [(dateToKey jan15,
           \<lparr>date = jan15, meals = appleBreakfast, lastModified = 1700000000000,
            dateKey = Some (dateToKey jan15)\<rparr>)]\<rparr>,
       idbCalls = [Open, Transaction, Open], callbackLog = []\<rparr>"
proof -
  have e: "\<not> hasAnyMealData getEmptyMealRecords"
    by (simp add: hasAnyMealData_def getEmptyMealRecords_def MealType_values_def
        Boolean_image_def)
  show ?thesis
    unfolding staleWorld_def reload_savedWorld_eq using e
    by (simp add: saveMealRecords_def deleteMealRecords_def route_def init_def
        isIndexedDBSupported_def notifyError_def envOpenFails_def envOk_def)
qed

lemma reachable_reload_savedWorld: "reachable (reload savedWorld)"
proof -
  have "reachable (step envOk (Save jan15 appleBreakfast) initialWorld)"
    by (rule reachable_step[OF reachable_initial])
  then have "reachable savedWorld" by (simp add: savedWorld_def)
  then show ?thesis by (rule reachable_reload)
qed

theorem saveMealRecords_without_content_deletes_witness:
  "\<not> hasRealContent getEmptyMealRecords
   \<and> reachable savedWorld
   \<and> storedRecords savedWorld =
       {\<lparr>date = jan15, meals = appleBreakfast, lastModified = 1700000000000,
         dateKey = Some (dateToKey jan15)\<rparr>}
   \<and> hasRealContent appleBreakfast
   \<and> map_of (activeStore savedWorld) (dateToKey jan15) \<noteq> None
   \<and> fst (saveMealRecords envOk jan15 getEmptyMealRecords savedWorld) = Resolved ()
   \<and> \<not> useFallback (snd (saveMealRecords envOk jan15 getEmptyMealRecords savedWorld))
   \<and> dbEntries (snd (saveMealRecords envOk jan15 getEmptyMealRecords savedWorld)) = []
   \<and> map_of (activeStore (snd (saveMealRecords envOk jan15 getEmptyMealRecords savedWorld)))
        (dateToKey jan15) = None
   \<and> fst (saveMealRecords envReadFails jan15 getEmptyMealRecords savedWorld) \<noteq> Resolved ()
   \<and> dbEntries (snd (saveMealRecords envReadFails jan15 getEmptyMealRecords savedWorld))
       = dbEntries savedWorld"
proof -
  have a: "hasAnyMealData appleBreakfast"
    by (simp add: hasAnyMealData_def appleBreakfast_def slot_def)
  have e: "\<not> hasRealContent getEmptyMealRecords"
    by (simp add: hasRealContent_def getEmptyMealRecords_def MealType_values_def)
  have ne: "\<not> hasAnyMealData getEmptyMealRecords"
    using e hasAnyMealData_hasRealContent by blast
  have w1: "savedWorld =
      \<lparr>db = Some 1, useFallback = False, fallbackStorage = [], errorCallback = False,
       objectStore = Some \<lparr>keyPath = ''dateKey'',
         entries = [(dateToKey jan15,
           \<lparr>date = jan15, meals = appleBreakfast, lastModified = 1700000000000,
            dateKey = Some (dateToKey jan15)\<rparr>)]\<rparr>,
       idbCalls = [Open, Transaction], callbackLog = []\<rparr>"
    unfolding savedWorld_def
    by (simp add: saveMealRecords_content[OF a] route_def init_def isIndexedDBSupported_def
        onupgradeneeded_def save_promise_def store_put_def extractKey_def transaction_def
        envOk_def initialWorld_def)
  have r: "reachable savedWorld"
    using reachable_step[OF reachable_initial, of envOk "Save jan15 appleBreakfast"]
    by (simp add: savedWorld_def)
  have s: "fst (saveMealRecords envOk jan15 getEmptyMealRecords savedWorld) = Resolved ()"
    unfolding w1 using ne
    by (simp add: saveMealRecords_def deleteMealRecords_def route_def delete_promise_def
        store_delete_def transaction_def envOk_def)
  have u: "\<not> useFallback (snd (saveMealRecords envOk jan15 getEmptyMealRecords savedWorld))"
    unfolding w1 using ne
    by (simp add: saveMealRecords_def deleteMealRecords_def route_def delete_promise_def
        store_delete_def transaction_def envOk_def)
  have f: "fst (saveMealRecords envReadFails jan15 getEmptyMealRecords savedWorld) \<noteq> Resolved ()"
    unfolding w1 using ne
    by (simp add: saveMealRecords_def deleteMealRecords_def route_def delete_promise_def
        store_delete_def transaction_def envReadFails_def envOk_def)
  have n: "map_of (activeStore savedWorld) (dateToKey jan15) \<noteq> None"
    "storedRecords savedWorld =
       {\<lparr>date = jan15, meals = appleBreakfast, lastModified = 1700000000000,
         dateKey = Some (dateToKey jan15)\<rparr>}" "dbEntries savedWorld = [(dateToKey jan15,
           \<lparr>date = jan15, meals = appleBreakfast, lastModified = 1700000000000,
            dateKey = Some (dateToKey jan15)\<rparr>)]"
    unfolding w1 by (simp_all add: activeStore_def storedRecords_def dbEntries_def)
  note t = saveMealRecords_without_content_deletes[OF e, of envOk jan15 savedWorld]
  note t' = saveMealRecords_without_content_deletes[OF e, of envReadFails jan15 savedWorld]
  from t s have t3:
    "map_of (activeStore (snd (saveMealRecords envOk jan15 getEmptyMealRecords savedWorld)))
       (dateToKey jan15) = None"
    by blast
  from t s have
    "if useFallback (snd (saveMealRecords envOk jan15 getEmptyMealRecords savedWorld)) then
       fallbackStorage (snd (saveMealRecords envOk jan15 getEmptyMealRecords savedWorld))
         = AList.delete (dateToKey jan15) (fallbackStorage savedWorld)
       \<and> dbEntries (snd (saveMealRecords envOk jan15 getEmptyMealRecords savedWorld))
         = dbEntries savedWorld
     else
       dbEntries (snd (saveMealRecords envOk jan15 getEmptyMealRecords savedWorld))
         = AList.delete (dateToKey jan15) (dbEntries savedWorld)
       \<and> fallbackStorage (snd (saveMealRecords envOk jan15 getEmptyMealRecords savedWorld))
         = fallbackStorage savedWorld"
    by blast
  with u have "dbEntries (snd (saveMealRecords envOk jan15 getEmptyMealRecords savedWorld))
       = AList.delete (dateToKey jan15) (dbEntries savedWorld)"
    by simp
  then have t5: "dbEntries (snd (saveMealRecords envOk jan15 getEmptyMealRecords savedWorld)) = []"
    by (simp add: n)
  from t r have "\<forall>v \<in> storedRecords savedWorld. hasRealContent (meals v)"
    by blast
  then have t4: "hasRealContent appleBreakfast"
    by (simp add: n(2))
  from t' f have t6:
    "dbEntries (snd (saveMealRecords envReadFails jan15 getEmptyMealRecords savedWorld))
       = dbEntries savedWorld"
    by blast
  from e r n(1,2) s u t3 t4 t5 f t6 show ?thesis by blast
qed

text \<open>
  Claim C2 as stated fails: a record that was persisted for the date is not always
  removed. The database holds a record for 15 January; the page is loaded again and the
  open request fails, so the service is on the fallback path. Saving a day without
  content for 15 January then resolves and deletes from the in-memory map only: the
  record stays in the database, and after the next page load it is loaded again.
\<close>

theorem saveMealRecords_without_content_stale_counterexample:
  "reachable (reload savedWorld)
   \<and> isSlotMapping getEmptyMealRecords \<and> \<not> hasRealContent getEmptyMealRecords
   \<and> map_of (dbEntries (reload savedWorld)) (dateToKey jan15) \<noteq> None
   \<and> fst (saveMealRecords envOpenFails jan15 getEmptyMealRecords (reload savedWorld))
       = Resolved ()
   \<and> map_of (dbEntries staleWorld) (dateToKey jan15) =
       Some \<lparr>date = jan15, meals = appleBreakfast, lastModified = 1700000000000,
             dateKey = Some (dateToKey jan15)\<rparr>
   \<and> fst (loadMealRecords envOk jan15 afterStaleWorld) = Resolved appleBreakfast"
proof -
  have e: "\<not> hasRealContent getEmptyMealRecords"
    by (simp add: hasRealContent_def getEmptyMealRecords_def MealType_values_def)
  have ne: "\<not> hasAnyMealData getEmptyMealRecords"
    using e hasAnyMealData_hasRealContent by blast
  have m: "isSlotMapping getEmptyMealRecords"
    by (simp add: isSlotMapping_def getEmptyMealRecords_def comp_def)
  have b: "map_of (dbEntries (reload savedWorld)) (dateToKey jan15) \<noteq> None"
    by (simp add: reload_savedWorld_eq dbEntries_def)
  have s: "fst (saveMealRecords envOpenFails jan15 getEmptyMealRecords (reload savedWorld))
       = Resolved ()"
    unfolding reload_savedWorld_eq using ne
    by (simp add: saveMealRecords_def deleteMealRecords_def route_def init_def
        isIndexedDBSupported_def notifyError_def envOpenFails_def envOk_def)
  have d: "map_of (dbEntries staleWorld) (dateToKey jan15) =
       Some \<lparr>date = jan15, meals = appleBreakfast, lastModified = 1700000000000,
             dateKey = Some (dateToKey jan15)\<rparr>"
    by (simp add: staleWorld_eq dbEntries_def)
  have l: "fst (loadMealRecords envOk jan15 afterStaleWorld) = Resolved appleBreakfast"
    unfolding afterStaleWorld_def staleWorld_eq
    by (simp add: reload_def loadMealRecords_def route_def init_def isIndexedDBSupported_def
        onupgradeneeded_def load_promise_def store_get_def transaction_def envOk_def)
  from reachable_reload_savedWorld m e b s d l show ?thesis by blast
qed

subsection \<open>The shape of the persisted records\<close>

lemma saveMealRecords_database_entry:
  assumes "hasAnyMealData mls" "fst (saveMealRecords env d mls w) = Resolved ()"
    and "\<not> useFallback (snd (saveMealRecords env d mls w))"
  shows "\<exists>st. objectStore (snd (saveMealRecords env d mls w)) = Some st \<and>
           map_of (entries st) (dateToKey d) =
             Some \<lparr>date = d, meals = mls, lastModified = now env, dateKey = Some (dateToKey d)\<rparr>"
proof -
  let ?data = "\<lparr>date = d, meals = mls, lastModified = now env, dateKey = None\<rparr>"
  let ?f = "\<lambda>w1. (Resolved (), w1\<lparr>fallbackStorage := AList.update (dateToKey d) ?data (fallbackStorage w1)\<rparr>)"
  let ?g = "save_promise env (dateToKey d) ?data"
  note eq = saveMealRecords_content[OF assms(1), of env d w]
  show ?thesis
  proof (cases rule: route_cases[of w env ?f ?g])
    case fallback
    with assms(3) show ?thesis by (simp add: eq)
  next
    case lazy_fallback
    with assms(3) show ?thesis by (simp add: eq)
  next
    case lazy_database
    with assms(2) have "fst (?g (snd (init env w))) = Resolved ()"
      by (simp add: eq)
    from save_promise_resolved[OF this] lazy_database show ?thesis
      by (auto simp: eq map_of_update_same)
  next
    case database
    with assms(2) have "fst (?g w) = Resolved ()"
      by (simp add: eq)
    from save_promise_resolved[OF this] database show ?thesis
      by (auto simp: eq map_of_update_same)
  qed
qed

text \<open>
  Claim C10. The object store is created with the key path \<^verbatim>\<open>dateKey\<close>, and in every
  reachable state each of its entries carries, besides \<open>date\<close>, \<open>meals\<close> and
  \<open>lastModified\<close>, a property \<open>dateKey\<close> that is the key it is filed under and equals the
  key string of its \<open>date\<close>. The record that a resolved \<^verbatim>\<open>saveMealRecords(d, m)\<close> leaves in
  the database is \<open>{date: d, meals: m, lastModified: now, dateKey: dateToKey(d)}\<close>.
\<close>

theorem persisted_records_carry_dateKey:
  "(reachable w \<and> objectStore w = Some st \<longrightarrow>
      keyPath st = ''dateKey'' \<and>
      (\<forall>(k, v) \<in> set (entries st). dateKey v = Some k \<and> k = dateToKey (date v)))
   \<and> (hasAnyMealData mls \<and> fst (saveMealRecords env d mls w) = Resolved ()
        \<and> \<not> useFallback (snd (saveMealRecords env d mls w)) \<longrightarrow>
      (\<exists>st'. objectStore (snd (saveMealRecords env d mls w)) = Some st' \<and>
         map_of (entries st') (dateToKey d) =
           Some \<lparr>date = d, meals = mls, lastModified = now env, dateKey = Some (dateToKey d)\<rparr>))"
proof (intro conjI impI)
  assume "reachable w \<and> objectStore w = Some st"
  then have "invariant w" "objectStore w = Some st"
    by (simp_all add: reachable_invariant)
  then show "keyPath st = ''dateKey''"
    and "\<forall>(k, v) \<in> set (entries st). dateKey v = Some k \<and> k = dateToKey (date v)"
    by (auto simp: invariant_def)
next
  assume "hasAnyMealData mls \<and> fst (saveMealRecords env d mls w) = Resolved ()
        \<and> \<not> useFallback (snd (saveMealRecords env d mls w))"
  then show "\<exists>st'. objectStore (snd (saveMealRecords env d mls w)) = Some st' \<and>
         map_of (entries st') (dateToKey d) =
           Some \<lparr>date = d, meals = mls, lastModified = now env, dateKey = Some (dateToKey d)\<rparr>"
    using saveMealRecords_database_entry by blast
qed

lemma savedWorld_eq:
  "savedWorld =
      \<lparr>db = Some 1, useFallback = False, fallbackStorage = [], errorCallback = False,
       objectStore = Some \<lparr>keyPath = ''dateKey'',
         entries = [(dateToKey jan15,
           \<lparr>date = jan15, meals = appleBreakfast, lastModified = 1700000000000,
            dateKey = Some (dateToKey jan15)\<rparr>)]\<rparr>,
       idbCalls = [Open, Transaction], callbackLog = []\<rparr>"
proof -
  have a: "hasAnyMealData appleBreakfast"
    by (simp add: hasAnyMealData_def appleBreakfast_def slot_def)
  show ?thesis
    unfolding savedWorld_def
    by (simp add: saveMealRecords_content[OF a] route_def init_def isIndexedDBSupported_def
        onupgradeneeded_def save_promise_def store_put_def extractKey_def transaction_def
        envOk_def initialWorld_def)
qed

lemma reachable_savedWorld: "reachable savedWorld"
  unfolding savedWorld_def
  using reachable_step[OF reachable_initial, of envOk "Save jan15 appleBreakfast"] by simp

theorem persisted_records_carry_dateKey_witness:
  "reachable savedWorld
   \<and> objectStore savedWorld = Some \<lparr>keyPath = ''dateKey'',
         entries = [(dateToKey jan15,
           \<lparr>date = jan15, meals = appleBreakfast, lastModified = 1700000000000,
            dateKey = Some (dateToKey jan15)\<rparr>)]\<rparr>
   \<and> hasAnyMealData appleBreakfast
   \<and> fst (saveMealRecords envOk jan15 appleBreakfast initialWorld) = Resolved ()
   \<and> \<not> useFallback (snd (saveMealRecords envOk jan15 appleBreakfast initialWorld))
   \<and> dateToKey jan15 = ''2024-01-15''"
proof -
  have a: "hasAnyMealData appleBreakfast"
    by (simp add: hasAnyMealData_def appleBreakfast_def slot_def)
  have s: "fst (saveMealRecords envOk jan15 appleBreakfast initialWorld) = Resolved ()"
    by (simp add: saveMealRecords_content[OF a] route_def init_def isIndexedDBSupported_def
        onupgradeneeded_def save_promise_def store_put_def extractKey_def transaction_def
        envOk_def initialWorld_def)
  have u: "\<not> useFallback (snd (saveMealRecords envOk jan15 appleBreakfast initialWorld))"
    using savedWorld_eq by (simp add: savedWorld_def)
  have o: "objectStore savedWorld = Some \<lparr>keyPath = ''dateKey'',
         entries = [(dateToKey jan15,
           \<lparr>date = jan15, meals = appleBreakfast, lastModified = 1700000000000,
            dateKey = Some (dateToKey jan15)\<rparr>)]\<rparr>"
    by (simp add: savedWorld_eq)
  have k: "dateToKey jan15 = ''2024-01-15''"
    by (simp add: jan15_def dateToKey_def String_number_def padStart_def natToString.simps
        digitChar_def)
  from persisted_records_carry_dateKey[of savedWorld _ appleBreakfast envOk jan15]
    reachable_savedWorld a s u o k
  show ?thesis by blast
qed

subsection \<open>Bulk reads\<close>






















lemma hasAnyMealData_appleBreakfast: "hasAnyMealData appleBreakfast"
  by (simp add: hasAnyMealData_def appleBreakfast_def slot_def)





subsection \<open>The fallback flag and repeated opens\<close>

lemma route_fallback: "useFallback w \<Longrightarrow> route env w f g = f w"
  by (simp add: route_def)

lemma route_connected: "\<not> useFallback w \<Longrightarrow> db w \<noteq> None \<Longrightarrow> route env w f g = g w"
  by (auto simp: route_def)

lemma fallback_saveMealRecords:
  assumes "useFallback w"
  shows "saveMealRecords env d mls w =
     (Resolved (),
      if hasAnyMealData mls then
        w\<lparr>fallbackStorage := AList.update (dateToKey d)
             \<lparr>date = d, meals = mls, lastModified = now env, dateKey = None\<rparr> (fallbackStorage w)\<rparr>
      else w\<lparr>fallbackStorage := AList.delete (dateToKey d) (fallbackStorage w)\<rparr>)"
  using assms
  by (simp add: saveMealRecords_def deleteMealRecords_def route_fallback Let_def)

lemma fallback_loadMealRecords:
  assumes "useFallback w"
  shows "loadMealRecords env d w =
     (Resolved (case map_of (fallbackStorage w) (dateToKey d) of
                  None \<Rightarrow> getEmptyMealRecords | Some v \<Rightarrow> meals v), w)"
  using assms
  by (simp add: loadMealRecords_def route_fallback load_fallback_def split: option.splits)

lemma fallback_deleteMealRecords:
  assumes "useFallback w"
  shows "deleteMealRecords env d w =
     (Resolved (), w\<lparr>fallbackStorage := AList.delete (dateToKey d) (fallbackStorage w)\<rparr>)"
  using assms by (simp add: deleteMealRecords_def route_fallback)

lemma fallback_getAllDatesWithData:
  assumes "useFallback w"
  shows "getAllDatesWithData env w =
     (Resolved (map date (filter (\<lambda>v. hasAnyMealData (meals v)) (map snd (fallbackStorage w)))),
      w)"
  using assms by (simp add: getAllDatesWithData_def route_fallback dates_fallback_def)

lemma fallback_getAllMealData:
  assumes "useFallback w"
  shows "getAllMealData env w =
     (Resolved (sortByDateAsc
        (filter (\<lambda>v. hasAnyMealData (meals v)) (map snd (fallbackStorage w)))), w)"
  using assms by (simp add: getAllMealData_def route_fallback all_fallback_def)

lemma fallback_step:
  assumes "useFallback w" "c \<noteq> Init"
  shows "useFallback (step env c w) \<and> idbCalls (step env c w) = idbCalls w
         \<and> objectStore (step env c w) = objectStore w \<and> db (step env c w) = db w"
  using assms
  by (cases c)
    (simp_all add: setErrorCallback_def fallback_saveMealRecords fallback_loadMealRecords
      fallback_deleteMealRecords fallback_getAllDatesWithData fallback_getAllMealData)

lemma fallback_run:
  assumes "useFallback w" "list_all (\<lambda>(env, c). c \<noteq> Init) cs"
  shows "useFallback (run cs w) \<and> idbCalls (run cs w) = idbCalls w
         \<and> objectStore (run cs w) = objectStore w \<and> db (run cs w) = db w"
  using assms
proof (induction cs arbitrary: w)
  case Nil
  then show ?case by simp
next
  case (Cons a cs)
  obtain env c where a: "a = (env, c)" by (cases a)
  with Cons.prems have c: "c \<noteq> Init" and rest: "list_all (\<lambda>(env, c). c \<noteq> Init) cs"
    by simp_all
  from fallback_step[OF Cons.prems(1) c, of env] Cons.IH[OF _ rest, of "step env c w"]
  show ?case by (simp add: a)
qed

text \<open>
  Claim C7, as amended. While the fallback flag is set, \<^verbatim>\<open>saveMealRecords\<close>,
  \<^verbatim>\<open>loadMealRecords\<close>, \<^verbatim>\<open>deleteMealRecords\<close>, \<^verbatim>\<open>getAllDatesWithData\<close> and \<^verbatim>\<open>getAllMealData\<close>
  work on the in-memory map alone and always resolve, and over any sequence of calls
  other than \<^verbatim>\<open>init\<close> the flag stays set, no call is made to the IndexedDB API, and the
  object store and the connection field stay as they were.
\<close>

theorem fallback_flag_holds_without_init:
  assumes "useFallback w"
  shows "saveMealRecords env d mls w =
           (Resolved (),
            if hasAnyMealData mls then
              w\<lparr>fallbackStorage := AList.update (dateToKey d)
                   \<lparr>date = d, meals = mls, lastModified = now env, dateKey = None\<rparr>
                   (fallbackStorage w)\<rparr>
            else w\<lparr>fallbackStorage := AList.delete (dateToKey d) (fallbackStorage w)\<rparr>)
         \<and> loadMealRecords env d w =
           (Resolved (case map_of (fallbackStorage w) (dateToKey d) of
                        None \<Rightarrow> getEmptyMealRecords | Some v \<Rightarrow> meals v), w)
         \<and> deleteMealRecords env d w =
           (Resolved (), w\<lparr>fallbackStorage := AList.delete (dateToKey d) (fallbackStorage w)\<rparr>)
         \<and> getAllDatesWithData env w =
           (Resolved (map date (filter (\<lambda>v. hasAnyMealData (meals v))
                                  (map snd (fallbackStorage w)))), w)
         \<and> getAllMealData env w =
           (Resolved (sortByDateAsc (filter (\<lambda>v. hasAnyMealData (meals v))
                                       (map snd (fallbackStorage w)))), w)
         \<and> (list_all (\<lambda>(env, c). c \<noteq> Init) cs \<longrightarrow>
              useFallback (run cs w) \<and> idbCalls (run cs w) = idbCalls w
              \<and> objectStore (run cs w) = objectStore w \<and> db (run cs w) = db w)"
  using fallback_saveMealRecords[OF assms] fallback_loadMealRecords[OF assms]
    fallback_deleteMealRecords[OF assms] fallback_getAllDatesWithData[OF assms]
    fallback_getAllMealData[OF assms] fallback_run[OF assms]
  by blast

lemma fallbackWorld_eq:
  "fallbackWorld =
     \<lparr>db = None, useFallback = True, fallbackStorage = [], errorCallback = False,
      objectStore = None, idbCalls = [Open], callbackLog = []\<rparr>"
  by (simp add: fallbackWorld_def init_def isIndexedDBSupported_def notifyError_def
      envOpenFails_def envOk_def initialWorld_def)

theorem fallback_flag_holds_without_init_witness:
  "useFallback fallbackWorld
   \<and> list_all (\<lambda>(env, c). c \<noteq> Init)
        [(envOk, Save jan15 appleBreakfast), (envOk, Load jan15), (envOk, GetAllMealData)]
   \<and> useFallback (run [(envOk, Save jan15 appleBreakfast), (envOk, Load jan15),
                        (envOk, GetAllMealData)] fallbackWorld)
   \<and> idbCalls (run [(envOk, Save jan15 appleBreakfast), (envOk, Load jan15),
                     (envOk, GetAllMealData)] fallbackWorld) = [Open]
   \<and> objectStore (run [(envOk, Save jan15 appleBreakfast), (envOk, Load jan15),
                        (envOk, GetAllMealData)] fallbackWorld) = None
   \<and> map fst (fallbackStorage (snd (saveMealRecords envOk jan15 appleBreakfast fallbackWorld)))
       = [dateToKey jan15]"
proof -
  have u: "useFallback fallbackWorld" by (simp add: fallbackWorld_eq)
  have l: "list_all (\<lambda>(env, c). c \<noteq> Init)
        [(envOk, Save jan15 appleBreakfast), (envOk, Load jan15), (envOk, GetAllMealData)]"
    by simp
  note t = fallback_flag_holds_without_init[OF u, of envOk jan15 appleBreakfast
      "[(envOk, Save jan15 appleBreakfast), (envOk, Load jan15), (envOk, GetAllMealData)]"]
  from t l have r: "useFallback (run [(envOk, Save jan15 appleBreakfast), (envOk, Load jan15),
                        (envOk, GetAllMealData)] fallbackWorld)"
    "idbCalls (run [(envOk, Save jan15 appleBreakfast), (envOk, Load jan15),
                     (envOk, GetAllMealData)] fallbackWorld) = idbCalls fallbackWorld"
    "objectStore (run [(envOk, Save jan15 appleBreakfast), (envOk, Load jan15),
                        (envOk, GetAllMealData)] fallbackWorld) = objectStore fallbackWorld"
    by blast+
  from t have "saveMealRecords envOk jan15 appleBreakfast fallbackWorld =
      (Resolved (), fallbackWorld\<lparr>fallbackStorage := AList.update (dateToKey jan15)
         \<lparr>date = jan15, meals = appleBreakfast, lastModified = now envOk, dateKey = None\<rparr>
         (fallbackStorage fallbackWorld)\<rparr>)"
    by (simp add: hasAnyMealData_appleBreakfast)
  then have s: "map fst (fallbackStorage (snd (saveMealRecords envOk jan15 appleBreakfast
      fallbackWorld))) = [dateToKey jan15]"
    by (simp add: fallbackWorld_eq)
  have f: "idbCalls fallbackWorld = [Open]" "objectStore fallbackWorld = None"
    by (simp_all add: fallbackWorld_eq)
  from u l r s f show ?thesis by simp
qed

text \<open>
  Claim C7 as stated fails: the flag does not stay set for the lifetime of the service.
  After a failed open has set it, a further call of \<^verbatim>\<open>init\<close> whose open request succeeds
  clears it, and the next \<^verbatim>\<open>saveMealRecords\<close> writes to the database and leaves the
  in-memory map alone.
\<close>

theorem fallback_flag_cleared_by_init_counterexample:
  "useFallback fallbackWorld
   \<and> \<not> useFallback (snd (init envOk fallbackWorld))
   \<and> idbCalls fallbackWorld = [Open]
   \<and> idbCalls (snd (saveMealRecords envOk jan15 appleBreakfast (snd (init envOk fallbackWorld))))
       = [Open, Open, Transaction]
   \<and> fallbackStorage (snd (saveMealRecords envOk jan15 appleBreakfast
                              (snd (init envOk fallbackWorld)))) = []"
proof -
  have i: "snd (init envOk fallbackWorld) =
     \<lparr>db = Some 2, useFallback = False, fallbackStorage = [], errorCallback = False,
      objectStore = Some \<lparr>keyPath = ''dateKey'', entries = []\<rparr>, idbCalls = [Open, Open],
      callbackLog = []\<rparr>"
    by (simp add: fallbackWorld_eq init_def isIndexedDBSupported_def onupgradeneeded_def
        envOk_def)
  show ?thesis
    unfolding i
    by (simp add: fallbackWorld_eq saveMealRecords_content[OF hasAnyMealData_appleBreakfast]
        route_def save_promise_def store_put_def extractKey_def transaction_def envOk_def)
qed

lemma connected_step_no_open:
  assumes "db w \<noteq> None" "c \<noteq> Init"
  shows "filter (\<lambda>x. x = Open) (idbCalls (step env c w)) = filter (\<lambda>x. x = Open) (idbCalls w)"
proof (cases "useFallback w")
  case True
  from fallback_step[OF True assms(2), of env] show ?thesis by simp
next
  case False
  note r = route_connected[OF False assms(1)]
  show ?thesis
  proof (cases c)
    case Init
    with assms(2) show ?thesis by simp
  next
    case SetErrorCallback
    then show ?thesis by (simp add: setErrorCallback_def)
  next
    case (Save d mls)
    then show ?thesis
      by (auto simp: saveMealRecords_def deleteMealRecords_def r Let_def save_promise_def
          delete_promise_def store_put_def store_delete_def notifyError_def transaction_def
          split: option.splits Outcome.splits)
  next
    case (Load d)
    then show ?thesis
      by (auto simp: loadMealRecords_def r load_promise_def notifyError_def transaction_def
          split: Event.splits option.splits)
  next
    case (Delete d)
    then show ?thesis
      by (auto simp: deleteMealRecords_def r delete_promise_def store_delete_def
          notifyError_def transaction_def split: option.splits Outcome.splits)
  next
    case GetAllDatesWithData
    then show ?thesis
      by (auto simp: getAllDatesWithData_def r dates_promise_def notifyError_def
          transaction_def split: Event.splits)
  next
    case GetAllMealData
    then show ?thesis
      by (auto simp: getAllMealData_def r all_promise_def notifyError_def transaction_def
          split: Event.splits)
  qed
qed

text \<open>
  Claim C8, as amended. \<^verbatim>\<open>init\<close> does not look at the connection it already holds. Called in
  the Ready state it resolves, and when IndexedDB is defined it issues a further open
  request. If that request succeeds the service is Ready again on a new connection, with
  the fallback flag off and everything else as before; otherwise the connection field
  keeps its value and the fallback flag is set. The calls that make no open request while
  a connection is held are the other ones.
\<close>

theorem init_when_ready_opens_again:
  assumes "db w \<noteq> None" and "objectStore w \<noteq> None"
  shows "fst (init env w) = Resolved ()
         \<and> (indexedDBDefined env \<longrightarrow>
              idbCalls (snd (init env w)) = idbCalls w @ [Open])
         \<and> (indexedDBDefined env \<and> openOutcome env = Succeeds \<longrightarrow>
              snd (init env w) =
                w\<lparr>db := Some (Suc (length (idbCalls w))), useFallback := False,
                  idbCalls := idbCalls w @ [Open]\<rparr>)
         \<and> (\<not> (indexedDBDefined env \<and> openOutcome env = Succeeds) \<longrightarrow>
              useFallback (snd (init env w)) \<and> db (snd (init env w)) = db w)
         \<and> (\<forall>c. c \<noteq> Init \<longrightarrow>
              filter (\<lambda>x. x = Open) (idbCalls (step env c w))
                = filter (\<lambda>x. x = Open) (idbCalls w))"
proof (intro conjI impI allI)
  show "fst (init env w) = Resolved ()" by (rule init_resolves)
  show "idbCalls (snd (init env w)) = idbCalls w @ [Open]" if "indexedDBDefined env"
    using that
    by (simp add: init_def isIndexedDBSupported_def Let_def onupgradeneeded_def
        split: Outcome.splits option.splits)
  show "snd (init env w) =
      w\<lparr>db := Some (Suc (length (idbCalls w))), useFallback := False,
        idbCalls := idbCalls w @ [Open]\<rparr>"
    if "indexedDBDefined env \<and> openOutcome env = Succeeds"
    using that assms(2)
    by (auto simp: init_def isIndexedDBSupported_def Let_def onupgradeneeded_def)
  show "useFallback (snd (init env w))" "db (snd (init env w)) = db w"
    if "\<not> (indexedDBDefined env \<and> openOutcome env = Succeeds)"
    using that
    by (auto simp: init_def isIndexedDBSupported_def Let_def split: Outcome.splits)
  show "filter (\<lambda>x. x = Open) (idbCalls (step env c w)) = filter (\<lambda>x. x = Open) (idbCalls w)"
    if "c \<noteq> Init" for c
    using assms(1) that by (rule connected_step_no_open)
qed

lemma readyWorld_eq:
  "readyWorld =
     \<lparr>db = Some 1, useFallback = False, fallbackStorage = [], errorCallback = False,
      objectStore = Some \<lparr>keyPath = ''dateKey'', entries = []\<rparr>, idbCalls = [Open],
      callbackLog = []\<rparr>"
  by (simp add: readyWorld_def init_def isIndexedDBSupported_def onupgradeneeded_def
      envOk_def initialWorld_def)

theorem init_when_ready_opens_again_witness:
  "db readyWorld \<noteq> None \<and> objectStore readyWorld \<noteq> None
   \<and> indexedDBDefined envOk \<and> openOutcome envOk = Succeeds
   \<and> fst (init envOk readyWorld) = Resolved ()
   \<and> snd (init envOk readyWorld) = readyWorld\<lparr>db := Some 2, idbCalls := [Open, Open]\<rparr>
   \<and> \<not> (indexedDBDefined envOpenFails \<and> openOutcome envOpenFails = Succeeds)
   \<and> useFallback (snd (init envOpenFails readyWorld))
   \<and> Load jan15 \<noteq> Init
   \<and> filter (\<lambda>x. x = Open) (idbCalls (step envOk (Load jan15) readyWorld)) = [Open]"
proof -
  have a: "db readyWorld \<noteq> None" "objectStore readyWorld \<noteq> None"
    by (simp_all add: readyWorld_eq)
  have e: "indexedDBDefined envOk" "openOutcome envOk = Succeeds"
    "\<not> (indexedDBDefined envOpenFails \<and> openOutcome envOpenFails = Succeeds)"
    by (simp_all add: envOk_def envOpenFails_def)
  note ok = init_when_ready_opens_again[OF a, of envOk]
  note bad = init_when_ready_opens_again[OF a, of envOpenFails]
  from ok have 1: "fst (init envOk readyWorld) = Resolved ()" by blast
  from ok e have "snd (init envOk readyWorld) =
      readyWorld\<lparr>db := Some (Suc (length (idbCalls readyWorld))), useFallback := False,
        idbCalls := idbCalls readyWorld @ [Open]\<rparr>"
    by blast
  then have 2: "snd (init envOk readyWorld) = readyWorld\<lparr>db := Some 2, idbCalls := [Open, Open]\<rparr>"
    by (simp add: readyWorld_eq)
  from bad e have 3: "useFallback (snd (init envOpenFails readyWorld))" by blast
  from ok have "filter (\<lambda>x. x = Open) (idbCalls (step envOk (Load jan15) readyWorld))
      = filter (\<lambda>x. x = Open) (idbCalls readyWorld)"
    by blast
  then have 4: "filter (\<lambda>x. x = Open) (idbCalls (step envOk (Load jan15) readyWorld)) = [Open]"
    by (simp add: readyWorld_eq)
  from a e 1 2 3 4 show ?thesis by simp
qed

text \<open>
  Claim C8 as stated fails: \<^verbatim>\<open>init\<close> in the Ready state is not a no-op. With an open request
  that succeeds it makes a second call of \<^verbatim>\<open>indexedDB.open\<close> and replaces the connection;
  with one that fails it also turns the fallback flag on and reports \<^verbatim>\<open>DB_OPEN_FAILED\<close>.
\<close>

theorem init_when_ready_counterexample:
  "db readyWorld = Some 1 \<and> \<not> useFallback readyWorld \<and> idbCalls readyWorld = [Open]
   \<and> idbCalls (snd (init envOk readyWorld)) = [Open, Open]
   \<and> db (snd (init envOk readyWorld)) = Some 2
   \<and> snd (init envOk readyWorld) \<noteq> readyWorld
   \<and> useFallback (snd (init envOpenFails readyWorld))
   \<and> snd (init envOpenFails readyWorld) \<noteq> readyWorld
   \<and> callbackLog (snd (init envOpenFails (setErrorCallback readyWorld)))
       = [StorageError DB_OPEN_FAILED (Some ''UnknownError'')]"
  by (simp add: readyWorld_eq init_def isIndexedDBSupported_def onupgradeneeded_def
      notifyError_def setErrorCallback_def envOk_def envOpenFails_def)

subsection \<open>Dates and date keys\<close>


end
